theory Spec2Isabelle
  imports Main "HOL-Library.AList" "HOL-Library.Char_ord" "HOL-Library.List_Lexorder"
    "HOL-Library.Product_Lexorder" "HOL-Library.Multiset" "HOL-Library.Sublist"
begin

section \<open>Values of the configuration and metadata documents\<close>

text \<open>
  The configuration file and the per-file metadata are YAML/JSON documents.  A loaded
  document is a tree of scalars, sequences and mappings.  A Python \<open>dict\<close> keeps its keys
  in insertion order, so a mapping is an association list; \<open>d[k] = v\<close> replaces the value
  in place when \<open>k\<close> is present and appends the pair otherwise.  Keys are strings.  Floating
  point scalars are not part of the model.
\<close>

datatype pyval =
    PNone
  | PBool bool
  | PInt int
  | PStr string
  | PList "pyval list"
  | PDict "(string \<times> pyval) list"

type_synonym pydict = "(string \<times> pyval) list"

text \<open>Python truthiness (\<open>bool(v)\<close>), used by every \<open>if v\<close> and \<open>a or b\<close> of the source.\<close>

fun truthy :: "pyval \<Rightarrow> bool" where
  "truthy PNone = False"
| "truthy (PBool b) = b"
| "truthy (PInt i) = (i \<noteq> 0)"
| "truthy (PStr s) = (s \<noteq> [])"
| "truthy (PList xs) = (xs \<noteq> [])"
| "truthy (PDict d) = (d \<noteq> [])"

text \<open>\<open>isinstance(v, dict)\<close>.\<close>

fun is_dict :: "pyval \<Rightarrow> bool" where
  "is_dict (PDict d) = True"
| "is_dict v = False"

text \<open>\<open>d.get(k)\<close> is \<open>map_of d k\<close>; \<open>d[k] = v\<close> is \<open>AList.update k v d\<close>.\<close>

subsection \<open>\<open>_deep_merge\<close>\<close>

text \<open>
  \<^verbatim>\<open>
  def _deep_merge(base, override):
      if not isinstance(base, dict):
          base = {}
      result = dict(base)
      for k, v in (override or {}).items():
          if isinstance(v, dict) and isinstance(result.get(k), dict):
              result[k] = _deep_merge(result.get(k, {}), v)
          else:
              result[k] = v
      return result
  \<close>
  Every caller passes a mapping as \<open>override\<close> (the rule iterator yields only mappings and
  the recursive call is guarded by \<open>isinstance(v, dict)\<close>), so \<open>override or {}\<close> is the
  mapping itself.  \<open>merge_loop result items\<close> is the \<open>for\<close> loop: \<open>result\<close> is the
  dictionary built so far and \<open>items\<close> the pairs of \<open>override\<close> still to visit.
\<close>

function merge_loop :: "pydict \<Rightarrow> pydict \<Rightarrow> pydict" where
  "merge_loop result [] = result"
| "merge_loop result ((k, v) # items) =
     merge_loop
       (case (v, map_of result k) of
          (PDict d, Some (PDict b)) \<Rightarrow> AList.update k (PDict (merge_loop b d)) result
        | _ \<Rightarrow> AList.update k v result)
       items"
  by pat_completeness auto
termination
  by (relation "measure (\<lambda>(r, items). size_list (size_prod (\<lambda>_. 0) size) items)") auto

definition deep_merge :: "pyval \<Rightarrow> pydict \<Rightarrow> pydict" where
  "deep_merge base override =
     merge_loop (case base of PDict b \<Rightarrow> b | _ \<Rightarrow> []) override"

subsection \<open>Auxiliary notions for reasoning about merges\<close>

text \<open>
  \<open>merge_value x v\<close> is the value the loop body stores under a key whose current value is
  \<open>x\<close> (\<open>None\<close> when the key is absent) and whose override value is \<open>v\<close>.
\<close>

fun merge_value :: "pyval option \<Rightarrow> pyval \<Rightarrow> pyval" where
  "merge_value (Some (PDict b)) (PDict d) = PDict (merge_loop b d)"
| "merge_value x v = v"

text \<open>
  A Python \<open>dict\<close> never holds a key twice.  \<open>wf_val\<close> states this for every mapping
  inside a value; it holds of every value a YAML or JSON document loads to.
\<close>

fun wf_val :: "pyval \<Rightarrow> bool" where
  "wf_val (PDict d) = (distinct (map fst d) \<and> (\<forall>kv \<in> set d. wf_val (snd kv)))"
| "wf_val (PList xs) = (\<forall>x \<in> set xs. wf_val x)"
| "wf_val v = True"


text \<open>
  \<open>merge_compatible m a b\<close>: there is no key (at any depth reached through mappings of all
  three arguments) at which \<open>m\<close> and \<open>b\<close> both hold a mapping while \<open>a\<close> holds a
  value that is not a mapping.
\<close>

fun merge_compatible :: "pydict \<Rightarrow> pydict \<Rightarrow> pydict \<Rightarrow> bool" where
  "merge_compatible m [] b = True"
| "merge_compatible m ((k, va) # a) b =
     ((case (map_of m k, map_of b k) of
         (Some (PDict x), Some (PDict y)) \<Rightarrow> (case va of PDict a' \<Rightarrow> merge_compatible x a' y | _ \<Rightarrow> False)
       | _ \<Rightarrow> True) \<and> merge_compatible m a b)"


text \<open>
  Merging a list of overrides one after the other acts on each key separately:
  \<open>lookups k ds\<close> are the values the overrides \<open>ds\<close> hold for \<open>k\<close>, in order, and
  \<open>chain x vs\<close> applies them to the current value \<open>x\<close>.
\<close>

fun chain :: "pyval option \<Rightarrow> pyval list \<Rightarrow> pyval option" where
  "chain x [] = x"
| "chain x (v # vs) = chain (Some (merge_value x v)) vs"

definition lookups :: "string \<Rightarrow> pydict list \<Rightarrow> pyval list" where
  "lookups k ds = List.map_filter (\<lambda>d. map_of d k) ds"

definition dict_of :: "pyval option \<Rightarrow> pydict" where
  "dict_of x = (case x of Some (PDict b) \<Rightarrow> b | _ \<Rightarrow> [])"

definition weight :: "pydict list \<Rightarrow> nat" where
  "weight ds = sum_list (map (\<lambda>d. size (PDict d)) ds)"

section \<open>Errors\<close>

text \<open>
  A raised exception and \<open>sys.exit\<close> are values.  An exception that nothing catches ends
  the interpreter with status 1; \<open>sys.exit(n)\<close> ends it with status \<open>n\<close>.
\<close>

datatype error = KeyError string | TypeError | AttributeError | SystemExit nat

fun exit_status :: "error \<Rightarrow> nat" where
  "exit_status (SystemExit n) = n"
| "exit_status e = 1"

section \<open>Paths and glob patterns\<close>

text \<open>
  A \<open>pathlib.Path\<close> is kept as its POSIX string (\<open>as_posix()\<close>) together with the result
  of \<open>resolve().relative_to(Path.cwd().resolve()).as_posix()\<close>, which needs the file system
  and raises when the file lies outside the working directory (\<open>None\<close>).
\<close>

record file_path =
  as_posix :: string
  rel_to_cwd :: "string option"

text \<open>\<open>Path.name\<close>: the final component; the path \<open>.\<close> has none.\<close>

definition path_name :: "string \<Rightarrow> string" where
  "path_name p = (if p = ''.'' then [] else rev (takeWhile (\<lambda>c. c \<noteq> CHR ''/'') (rev p)))"

text \<open>\<open>Path.parent\<close> as a string: everything before the final component, \<open>.\<close> when the
  path has one component only.\<close>

definition path_parent :: "string \<Rightarrow> string" where
  "path_parent p =
     (let d = rev (drop 1 (dropWhile (\<lambda>c. c \<noteq> CHR ''/'') (rev p)))
      in if CHR ''/'' \<notin> set p then ''.'' else if d = [] then ''/'' else d)"

text \<open>\<open>Path.stem\<close>: the name without its last suffix; a leading or a trailing dot starts
  no suffix.\<close>

definition path_stem :: "string \<Rightarrow> string" where
  "path_stem p =
     (let n = path_name p;
          s = rev (drop 1 (dropWhile (\<lambda>c. c \<noteq> CHR ''.'') (rev n)))
      in if CHR ''.'' \<notin> set n \<or> s = [] \<or> last n = CHR ''.'' then n else s)"

text \<open>\<open>d / f\<close>: an absolute \<open>f\<close> replaces \<open>d\<close>; the directory \<open>.\<close> adds nothing.\<close>

definition path_join :: "string \<Rightarrow> string \<Rightarrow> string" where
  "path_join d f =
     (if f \<noteq> [] \<and> hd f = CHR ''/'' then f
      else if d = ''.'' \<or> d = [] then f
      else if last d = CHR ''/'' then d @ f
      else d @ ''/'' @ f)"

text \<open>
  \<open>fnmatch.fnmatch(name, pat)\<close> of the Python standard library, on a POSIX system (where
  \<open>os.path.normcase\<close> changes nothing).  The whole name must match: \<open>*\<close> matches any run
  of characters, \<open>/\<close> included, \<open>?\<close> one character, \<open>[seq]\<close> one character of \<open>seq\<close>,
  \<open>[!seq]\<close> one character not in \<open>seq\<close>; in \<open>seq\<close>, \<open>a-b\<close> is a range, a \<open>]\<close> directly
  after \<open>[\<close> or \<open>[!\<close> is literal, and a \<open>[\<close> with no closing \<open>]\<close> is literal.
\<close>

fun scan_close :: "string \<Rightarrow> (string \<times> string) option" where
  "scan_close [] = None"
| "scan_close (c # cs) =
     (if c = CHR '']'' then Some ([], cs)
      else case scan_close cs of None \<Rightarrow> None | Some (a, b) \<Rightarrow> Some (c # a, b))"

definition class_split :: "string \<Rightarrow> (string \<times> string) option" where
  "class_split r =
     (let (neg, r1) = (case r of c # t \<Rightarrow> if c = CHR ''!'' then ([c], t) else ([], r) | [] \<Rightarrow> ([], r));
          (lead, r2) = (case r1 of c # t \<Rightarrow> if c = CHR '']'' then ([c], t) else ([], r1) | [] \<Rightarrow> ([], r1))
      in case scan_close r2 of None \<Rightarrow> None | Some (a, b) \<Rightarrow> Some (neg @ lead @ a, b))"

fun in_class :: "char \<Rightarrow> string \<Rightarrow> bool" where
  "in_class c [] = False"
| "in_class c [x] = (c = x)"
| "in_class c (lo # d # hi # rest) =
     (if d = CHR ''-'' then (lo \<le> c \<and> c \<le> hi) \<or> in_class c rest
      else c = lo \<or> in_class c (d # hi # rest))"
| "in_class c (x # rest) = (c = x \<or> in_class c rest)"

definition class_match :: "char \<Rightarrow> string \<Rightarrow> bool" where
  "class_match c stuff =
     (case stuff of
        x # body \<Rightarrow> if x = CHR ''!'' then \<not> in_class c body else in_class c stuff
      | [] \<Rightarrow> False)"

function fnmatch :: "string \<Rightarrow> string \<Rightarrow> bool" where
  "fnmatch [] [] = True"
| "fnmatch [] (p # ps) = (p = CHR ''*'' \<and> fnmatch [] ps)"
| "fnmatch (c # cs) [] = False"
| "fnmatch (c # cs) (p # ps) =
     (if p = CHR ''*'' then fnmatch (c # cs) ps \<or> fnmatch cs (p # ps)
      else if p = CHR ''?'' then fnmatch cs ps
      else if p = CHR ''['' then
        (case class_split ps of
           None \<Rightarrow> c = CHR ''['' \<and> fnmatch cs ps
         | Some (stuff, rest) \<Rightarrow> class_match c stuff \<and> fnmatch cs rest)
      else c = p \<and> fnmatch cs ps)"
  by pat_completeness auto

lemma scan_close_length: "scan_close r = Some (a, b) \<Longrightarrow> length b < length r"
  by (induction r arbitrary: a b) (auto split: if_splits option.splits)

lemma class_split_length: "class_split r = Some (a, b) \<Longrightarrow> length b < length r"
  by (cases r; cases "tl r")
     (auto simp: class_split_def Let_def split: if_splits option.splits dest!: scan_close_length)

termination fnmatch
  by (relation "measure (\<lambda>(s, pat). length s + length pat)")
     (auto dest: class_split_length)

section \<open>Configuration and metadata overrides\<close>

text \<open>
  The configuration file, read once by \<open>load_config\<close>.  The settings the program reads
  with a fixed type are fields; \<open>None\<close> is an absent key (\<open>github_repo\<close> is read as
  \<open>config['github_repo']\<close>, with no default: the key is required).  The two keys that may carry
  override rules stay raw documents (\<open>PNone\<close> when absent), since the program accepts
  several shapes for them.
\<close>

record section_cfg =
  folder :: string
  sec_title :: "string option"
  sec_slides :: "string option"
  sec_data_files :: "string list"
  sec_icon :: "string option"
  draft :: bool
  sec_description :: "string option"

text \<open>An entry of \<open>sections\<close> is a mapping or a bare folder name.\<close>

datatype section_entry = SecDict section_cfg | SecName string

record config =
  github_repo :: string
  github_branch :: "string option"
  output_dir :: "string option"
  sections :: "section_entry list"
  cfg_slides :: "string option"
  cfg_data_files :: "string list"
  cfg_links :: pyval
  metadata_overrides :: pyval
  metadata :: pyval

text \<open>\<open>d.get(k)\<close> as a value (\<open>None\<close> when the key is absent) and \<open>a or b\<close>.\<close>

definition dget :: "pydict \<Rightarrow> string \<Rightarrow> pyval" where
  "dget d k = (case map_of d k of Some v \<Rightarrow> v | None \<Rightarrow> PNone)"

definition por :: "pyval \<Rightarrow> pyval \<Rightarrow> pyval" where
  "por a b = (if truthy a then a else b)"

text \<open>
  \<^verbatim>\<open>
  def _iter_metadata_overrides(config):
      md = config.get('metadata_overrides') or config.get('metadata')
      if not md:
          return
      if isinstance(md, dict):
          for pat, vals in md.items():
              if isinstance(vals, dict):
                  yield pat, vals
      elif isinstance(md, list):
          for item in md:
              if not isinstance(item, dict):
                  continue
              pattern = item.get('pattern') or item.get('file') or item.get('match')
              values = item.get('values') or item.get('merge')
              if not values:
                  values = {k: v for k, v in item.items() if k not in ('pattern', 'file', 'match')}
              if pattern and isinstance(values, dict):
                  yield pattern, values
  \<close>
  The generator has no effect of its own, so the model returns the list of what it yields.
\<close>

definition iter_item :: "pyval \<Rightarrow> (pyval \<times> pydict) list" where
  "iter_item item =
     (case item of
        PDict it \<Rightarrow>
          (let pattern = por (por (dget it ''pattern'') (dget it ''file'')) (dget it ''match'');
               values = por (dget it ''values'') (dget it ''merge'');
               values' = (if \<not> truthy values
                          then PDict (filter (\<lambda>(k, v). k \<notin> {''pattern'', ''file'', ''match''}) it)
                          else values)
           in (case values' of
                 PDict vs \<Rightarrow> if truthy pattern then [(pattern, vs)] else []
               | _ \<Rightarrow> []))
      | _ \<Rightarrow> [])"

definition iter_metadata_overrides :: "config \<Rightarrow> (pyval \<times> pydict) list" where
  "iter_metadata_overrides cfg =
     (let md = por (metadata_overrides cfg) (metadata cfg)
      in if \<not> truthy md then []
         else (case md of
                 PDict d \<Rightarrow>
                   concat (map (\<lambda>(pat, vals). case vals of PDict vs \<Rightarrow> [(PStr pat, vs)] | _ \<Rightarrow> []) d)
               | PList items \<Rightarrow> concat (map iter_item items)
               | _ \<Rightarrow> []))"

text \<open>
  \<^verbatim>\<open>
  def apply_metadata_overrides(file_path: Path, meta: dict, config: dict) -> dict:
      try:
          rel = file_path.resolve().relative_to(Path.cwd().resolve()).as_posix()
      except Exception:
          rel = file_path.as_posix()
      merged = dict(meta or {})
      for pattern, values in _iter_metadata_overrides(config) or []:
          if fnmatch.fnmatch(rel, pattern) or fnmatch.fnmatch(file_path.name, pattern):
              merged = _deep_merge(merged, values)
      return merged
  \<close>
  \<open>rule_applies rel name pat\<close> is the test of the loop.  \<open>fnmatch\<close> raises \<open>TypeError\<close> for
  a pattern that is not a string.  \<open>meta\<close> is a mapping or a false value; \<open>dict(x)\<close> of any
  other \<open>x\<close> is reported as \<open>TypeError\<close>.
\<close>

definition rule_applies :: "string \<Rightarrow> string \<Rightarrow> string \<Rightarrow> bool" where
  "rule_applies rel name pat = (fnmatch rel pat \<or> fnmatch name pat)"

fun apply_loop :: "string \<Rightarrow> string \<Rightarrow> pydict \<Rightarrow> (pyval \<times> pydict) list \<Rightarrow> error + pydict" where
  "apply_loop rel name merged [] = Inr merged"
| "apply_loop rel name merged ((pattern, values) # rules) =
     (case pattern of
        PStr pat \<Rightarrow>
          apply_loop rel name
            (if rule_applies rel name pat then deep_merge (PDict merged) values else merged) rules
      | _ \<Rightarrow> Inl TypeError)"

definition rel_path :: "file_path \<Rightarrow> string" where
  "rel_path fp = (case rel_to_cwd fp of Some r \<Rightarrow> r | None \<Rightarrow> as_posix fp)"

definition apply_metadata_overrides :: "file_path \<Rightarrow> pyval \<Rightarrow> config \<Rightarrow> error + pydict" where
  "apply_metadata_overrides fp meta cfg =
     (case (if truthy meta then meta else PDict []) of
        PDict m \<Rightarrow> apply_loop (rel_path fp) (path_name (as_posix fp)) m (iter_metadata_overrides cfg)
      | _ \<Rightarrow> Inl TypeError)"

text \<open>
  For reasoning: the override values of the rules that apply to a file, in declaration
  order, and the check that every pattern is a string.
\<close>

definition applicable :: "string \<Rightarrow> string \<Rightarrow> (pyval \<times> pydict) list \<Rightarrow> pydict list" where
  "applicable rel name rules =
     concat (map (\<lambda>(p, v). case p of PStr pat \<Rightarrow> if rule_applies rel name pat then [v] else []
                               | _ \<Rightarrow> []) rules)"

definition all_str :: "(pyval \<times> pydict) list \<Rightarrow> bool" where
  "all_str rules = list_all (\<lambda>(p, v). case p of PStr pat \<Rightarrow> True | _ \<Rightarrow> False) rules"

section \<open>Table of contents of a markdown page\<close>

text \<open>
  Strings are sequences of 8-bit characters holding ASCII text; a character above 127 is
  treated as a letter without case.  \<open>is_space\<close> is \<open>str.isspace\<close> (and the class \<open>\s\<close>),
  \<open>is_word\<close> the class \<open>\w\<close>, \<open>lower\<close> is \<open>str.lower\<close> and \<open>strip\<close> is \<open>str.strip()\<close>.
\<close>

definition upper_letters :: string where
  "upper_letters = ''ABCDEFGHIJKLMNOPQRSTUVWXYZ''"

definition lower_letters :: string where
  "lower_letters = ''abcdefghijklmnopqrstuvwxyz''"

definition digits :: string where
  "digits = ''0123456789''"

definition is_space :: "char \<Rightarrow> bool" where
  "is_space c = (c \<in> set [CHR 0x09, CHR 0x0A, CHR 0x0B, CHR 0x0C, CHR 0x0D,
                            CHR 0x1C, CHR 0x1D, CHR 0x1E, CHR 0x1F, CHR '' ''])"

definition is_word :: "char \<Rightarrow> bool" where
  "is_word c =
     (c \<in> set (upper_letters @ lower_letters @ digits @ ''_'') \<or> 128 \<le> (of_char c :: nat))"

definition lower_char :: "char \<Rightarrow> char" where
  "lower_char c = (case map_of (zip upper_letters lower_letters) c of Some d \<Rightarrow> d | None \<Rightarrow> c)"

definition lower :: "string \<Rightarrow> string" where
  "lower s = map lower_char s"

definition strip :: "string \<Rightarrow> string" where
  "strip s = rev (dropWhile is_space (rev (dropWhile is_space s)))"

text \<open>\<open>s.replace(' ', '-')\<close>.\<close>

definition spaces_to_hyphens :: "string \<Rightarrow> string" where
  "spaces_to_hyphens s = map (\<lambda>c. if c = CHR '' '' then CHR ''-'' else c) s"

text \<open>\<open>re.sub(r'[^\w\s-]', '', header)\<close>: drop what is neither a word character, nor white
  space, nor a hyphen.\<close>

definition drop_special :: "string \<Rightarrow> string" where
  "drop_special s = filter (\<lambda>c. is_word c \<or> is_space c \<or> c = CHR ''-'') s"

text \<open>\<open>s.split('\n')\<close> and \<open>'\n'.join(xs)\<close>.\<close>

fun split_lines :: "string \<Rightarrow> string list" where
  "split_lines [] = [[]]"
| "split_lines (c # cs) =
     (if c = CHR 0x0A then [] # split_lines cs
      else (case split_lines cs of l # ls \<Rightarrow> (c # l) # ls | [] \<Rightarrow> [[c]]))"

fun join_lines :: "string list \<Rightarrow> string" where
  "join_lines [] = []"
| "join_lines [l] = l"
| "join_lines (l # ls) = l @ [CHR 0x0A] @ join_lines ls"

text \<open>
  \<^verbatim>\<open>
  def generate_toc_from_markdown(markdown_content, has_useful_links=False):
      header_pattern = r'^## (.+)$'
      headers = re.findall(header_pattern, markdown_content, re.MULTILINE)
      if has_useful_links:
          headers = ["Useful Links"] + headers
      if not headers:
          return ""
      toc_lines = ["## Table of Contents\n"]
      for header in headers:
          anchor = re.sub(r'[^\w\s-]', '', header).strip().lower().replace(' ', '-')
          toc_lines.append(f"- [{header}](#{anchor})")
      return "\n".join(toc_lines) + "\n"
  \<close>
  With \<open>re.MULTILINE\<close>, \<open>^\<close> matches at the start of every line and \<open>$\<close> at its end, and
  \<open>.\<close> matches every character but the newline: the pattern finds the lines that start
  with \<open>## \<close> and go on for at least one character, and captures the rest of the line.
\<close>

definition is_h2_line :: "string \<Rightarrow> bool" where
  "is_h2_line l = (take 3 l = ''## '' \<and> 3 < length l)"

definition find_headers :: "string \<Rightarrow> string list" where
  "find_headers content = map (drop 3) (filter is_h2_line (split_lines content))"

definition anchor :: "string \<Rightarrow> string" where
  "anchor header = spaces_to_hyphens (lower (strip (drop_special header)))"

definition toc_entry :: "string \<Rightarrow> string" where
  "toc_entry header = ''- ['' @ header @ ''](#'' @ anchor header @ '')''"

definition toc_headers :: "string \<Rightarrow> bool \<Rightarrow> string list" where
  "toc_headers content has_useful_links =
     (if has_useful_links then [''Useful Links''] else []) @ find_headers content"

definition generate_toc_from_markdown :: "string \<Rightarrow> bool \<Rightarrow> string" where
  "generate_toc_from_markdown content has_useful_links =
     (let headers = toc_headers content has_useful_links
      in if headers = [] then []
         else join_lines ((''## Table of Contents'' @ [CHR 0x0A]) # map toc_entry headers)
              @ [CHR 0x0A])"



section \<open>Python strings and formatting\<close>

text \<open>\<open>s.startswith(p)\<close>, \<open>sub in s\<close> and \<open>s.split()\<close>.\<close>

definition starts_with :: "string \<Rightarrow> string \<Rightarrow> bool" where
  "starts_with s p = (take (length p) s = p)"

definition contains :: "string \<Rightarrow> string \<Rightarrow> bool" where
  "contains s sub = list_ex (\<lambda>i. starts_with (drop i s) sub) [0..<Suc (length s)]"

fun words_of :: "string \<Rightarrow> string list" where
  "words_of [] = [[]]"
| "words_of (c # cs) =
     (if is_space c then [] # words_of cs
      else (case words_of cs of w # ws \<Rightarrow> (c # w) # ws | [] \<Rightarrow> [[c]]))"

definition split_ws :: "string \<Rightarrow> string list" where
  "split_ws s = filter (\<lambda>w. w \<noteq> []) (words_of s)"

text \<open>\<open>str(n)\<close> for an integer.\<close>

function show_nat :: "nat \<Rightarrow> string" where
  "show_nat n = (if n < 10 then [digits ! n] else show_nat (n div 10) @ [digits ! (n mod 10)])"
  by pat_completeness auto
termination
  by (relation "measure id") auto

definition show_int :: "int \<Rightarrow> string" where
  "show_int i = (if i < 0 then ''-'' @ show_nat (nat (- i)) else show_nat (nat i))"

text \<open>
  \<open>repr(s)\<close> for a string: single quotes unless the string holds a single quote and no
  double quote; the backslash, the quote in use, newline, carriage return and tab are
  escaped, other control characters are written \<open>\xNN\<close>.
\<close>

definition hex_lower :: "nat \<Rightarrow> char" where
  "hex_lower n = ''0123456789abcdef'' ! n"

definition repr_char :: "char \<Rightarrow> char \<Rightarrow> string" where
  "repr_char q c =
     (if c = CHR 0x5C then [CHR 0x5C, CHR 0x5C]
      else if c = q then [CHR 0x5C, q]
      else if c = CHR 0x0A then [CHR 0x5C, CHR ''n'']
      else if c = CHR 0x0D then [CHR 0x5C, CHR ''r'']
      else if c = CHR 0x09 then [CHR 0x5C, CHR ''t'']
      else if (of_char c :: nat) < 32 \<or> (of_char c :: nat) = 127
        then [CHR 0x5C, CHR ''x'', hex_lower (of_char c div 16), hex_lower (of_char c mod 16)]
      else [c])"

definition repr_str :: "string \<Rightarrow> string" where
  "repr_str s =
     (let q = (if CHR 0x27 \<in> set s \<and> CHR 0x22 \<notin> set s then CHR 0x22 else CHR 0x27)
      in [q] @ concat (map (repr_char q) s) @ [q])"

fun join_with :: "string \<Rightarrow> string list \<Rightarrow> string" where
  "join_with sep [] = []"
| "join_with sep [x] = x"
| "join_with sep (x # xs) = x @ sep @ join_with sep xs"

fun py_repr :: "pyval \<Rightarrow> string" where
  "py_repr PNone = ''None''"
| "py_repr (PBool b) = (if b then ''True'' else ''False'')"
| "py_repr (PInt i) = show_int i"
| "py_repr (PStr s) = repr_str s"
| "py_repr (PList xs) = ''['' @ join_with '', '' (map py_repr xs) @ '']''"
| "py_repr (PDict d) =
     ''{'' @ join_with '', '' (map (\<lambda>kv. repr_str (fst kv) @ '': '' @ py_repr (snd kv)) d) @ ''}''"

text \<open>\<open>str(v)\<close>, which a formatted string literal applies to \<open>{v}\<close>.\<close>

fun py_str :: "pyval \<Rightarrow> string" where
  "py_str (PStr s) = s"
| "py_str v = py_repr v"

text \<open>\<open>urllib.parse.quote(s)\<close>: letters, digits and \<open>_.-~/\<close> stay, every other character is
  written \<open>%XX\<close>.\<close>

definition hex_upper :: "nat \<Rightarrow> char" where
  "hex_upper n = ''0123456789ABCDEF'' ! n"

definition url_quote :: "string \<Rightarrow> string" where
  "url_quote s =
     concat (map (\<lambda>c. if c \<in> set (upper_letters @ lower_letters @ digits @ ''_.-~/'') then [c]
                        else [CHR ''%'', hex_upper (of_char c div 16), hex_upper (of_char c mod 16)]) s)"

text \<open>The pictographs of the generated pages, as the bytes the source file holds.\<close>

definition glyph_check :: string where
  "glyph_check = [CHR 0xE2, CHR 0x80, CHR 0x9A, CHR 0xC3, CHR 0xBA, CHR 0xC3, CHR 0xAC]"

definition glyph_arrow :: string where
  "glyph_arrow = [CHR 0xE2, CHR 0x80, CHR 0x9A, CHR 0xC3, CHR 0x9C, CHR 0xC3, CHR 0xAD]"

definition glyph_back :: string where
  "glyph_back = [CHR 0xE2, CHR 0x80, CHR 0x9A, CHR 0xC3, CHR 0x9C, CHR 0xC3, CHR 0xAA]"

definition glyph_box :: string where
  "glyph_box = [CHR 0xEF, CHR 0xA3, CHR 0xBF, CHR 0xC3, CHR 0xBC, CHR 0xC3, CHR 0xAC, CHR 0xC2, CHR 0xB6]"

definition glyph_rocket :: string where
  "glyph_rocket = [CHR 0xEF, CHR 0xA3, CHR 0xBF, CHR 0xC3, CHR 0xBC, CHR 0xC3, CHR 0xB6, CHR 0xC3, CHR 0x84]"

definition glyph_notebook :: string where
  "glyph_notebook = [CHR 0xEF, CHR 0xA3, CHR 0xBF, CHR 0xC3, CHR 0xBC, CHR 0xC3, CHR 0xAC, CHR 0xC3, CHR 0xAC]"

definition glyph_slides :: string where
  "glyph_slides = [CHR 0xEF, CHR 0xA3, CHR 0xBF, CHR 0xC3, CHR 0xBC, CHR 0xC3, CHR 0xAC, CHR 0xC3, CHR 0xAB]"

section \<open>The environment of a run\<close>

text \<open>
  What the program reads from outside: which paths exist, the notebooks and markdown
  files of a folder (\<open>Path(folder).glob\<close>, read and parsed), and the HTML that the slide
  pipeline produces with the converters installed on the machine.  Copying files and
  writing archives leave no trace in the results below and are not modelled.
\<close>

record notebook =
  nb_metadata :: "pydict option"
  cells :: "pydict list"

text \<open>A markdown file, as \<open>extract_markdown_frontmatter\<close> returns it: the front matter (an
  empty mapping when there is none or it does not parse) and the body.\<close>

record md_file =
  md_frontmatter :: pyval
  md_body :: string

record env =
  path_exists :: "string \<Rightarrow> bool"
  notebooks_in :: "string \<Rightarrow> (file_path \<times> notebook) list"
  markdowns_in :: "string \<Rightarrow> (file_path \<times> md_file) list"
  embed_html :: "string \<Rightarrow> string \<Rightarrow> string \<Rightarrow> string option \<Rightarrow> string"

section \<open>Summary records\<close>

text \<open>
  The dictionary that a processor returns and the index consumes.  A key that a kind of
  record does not have is \<open>None\<close>; \<open>order\<close>, \<open>links\<close>, \<open>slides\<close>, \<open>title\<close> and
  \<open>description\<close> hold what the merged metadata holds (\<open>PNone\<close> for Python's \<open>None\<close>).
\<close>

record item =
  item_section :: string
  section_folder :: "string option"
  is_draft :: bool
  description :: pyval
  name :: "string option"
  title :: "pyval option"
  item_type :: "string option"
  html_file :: "string option"
  exercise_file :: "string option"
  answers_file :: "string option"
  data_file :: "string option"
  order :: pyval
  links :: pyval
  slides :: pyval
  section_slides :: "string option"

section \<open>Notebook processing\<close>

definition get_notebook_metadata :: "notebook \<Rightarrow> pyval" where
  "get_notebook_metadata nb =
     (case nb_metadata nb of
        None \<Rightarrow> PDict []
      | Some md \<Rightarrow> (case map_of md ''workshop'' of None \<Rightarrow> PDict [] | Some w \<Rightarrow> w))"

text \<open>
  The loop over the cells of the exercise variant:
  \<^verbatim>\<open>
  for i, cell in enumerate(exercise_nb['cells']):
      if cell['cell_type'] == 'code':
          cell['outputs'] = []
          cell['execution_count'] = None
      if cell.get('metadata', {}).get('tags') and 'solution' in cell['metadata']['tags']:
          exercise_nb['cells'][i] = {
              "cell_type": "code", "metadata": {}, "source": [],
              "execution_count": None, "outputs": []
          }
  \<close>
  A cell is the mapping the notebook file holds.
\<close>

definition empty_code_cell :: pydict where
  "empty_code_cell = [(''cell_type'', PStr ''code''), (''metadata'', PDict []),
     (''source'', PList []), (''execution_count'', PNone), (''outputs'', PList [])]"

definition has_solution_tag :: "pydict \<Rightarrow> error + bool" where
  "has_solution_tag cell =
     (case map_of cell ''metadata'' of
        None \<Rightarrow> Inr False
      | Some (PDict md) \<Rightarrow>
          (let tags = dget md ''tags''
           in if \<not> truthy tags then Inr False
              else (case tags of
                      PList ts \<Rightarrow> Inr (PStr ''solution'' \<in> set ts)
                    | PStr s \<Rightarrow> Inr (contains s ''solution'')
                    | PDict d \<Rightarrow> Inr (''solution'' \<in> fst ` set d)
                    | _ \<Rightarrow> Inl TypeError))
      | Some _ \<Rightarrow> Inl AttributeError)"

definition exercise_cell :: "pydict \<Rightarrow> error + pydict" where
  "exercise_cell cell =
     (case map_of cell ''cell_type'' of
        None \<Rightarrow> Inl (KeyError ''cell_type'')
      | Some t \<Rightarrow>
          (let cleared = (if t = PStr ''code''
                          then AList.update ''execution_count'' PNone
                                 (AList.update ''outputs'' (PList []) cell)
                          else cell)
           in case has_solution_tag cleared of
                Inl e \<Rightarrow> Inl e
              | Inr tagged \<Rightarrow> Inr (if tagged then empty_code_cell else cleared)))"

fun exercise_cells :: "pydict list \<Rightarrow> error + pydict list" where
  "exercise_cells [] = Inr []"
| "exercise_cells (c # cs) =
     (case exercise_cell c of
        Inl e \<Rightarrow> Inl e
      | Inr c' \<Rightarrow> (case exercise_cells cs of Inl e \<Rightarrow> Inl e | Inr cs' \<Rightarrow> Inr (c' # cs')))"

text \<open>
  \<open>create_setup_cells(zip_name, config, install_packages, section_folder)\<close>, called with
  \<open>for_codespaces=False\<close>: an install cell when packages are given, then a download cell
  when there is a data archive.
\<close>

definition code_cell :: "string list \<Rightarrow> pydict" where
  "code_cell src = [(''cell_type'', PStr ''code''), (''metadata'', PDict []),
     (''source'', PList (map PStr src)), (''execution_count'', PNone), (''outputs'', PList [])]"

fun install_lines :: "pyval list \<Rightarrow> error + string list" where
  "install_lines [] = Inr []"
| "install_lines (p # ps) =
     (case p of
        PStr s \<Rightarrow>
          (case install_lines ps of
             Inl e \<Rightarrow> Inl e
           | Inr ls \<Rightarrow>
               Inr ((if strip s \<noteq> []
                     then [''%pip install --upgrade --quiet '' @ strip s @ [CHR 0x0A]] else []) @ ls))
      | _ \<Rightarrow> Inl AttributeError)"

definition install_cells :: "pyval \<Rightarrow> error + pydict list" where
  "install_cells install_packages =
     (if \<not> truthy install_packages then Inr []
      else (let packages = (case install_packages of
                              PStr s \<Rightarrow> map PStr (split_ws s)
                            | PList l \<Rightarrow> l
                            | _ \<Rightarrow> [])
            in case install_lines packages of
                 Inl e \<Rightarrow> Inl e
               | Inr ls \<Rightarrow>
                   Inr (if packages \<noteq> []
                        then [code_cell ((''# Install required packages'' @ [CHR 0x0A]) # ls)]
                        else [])))"

text \<open>The single quote.\<close>

definition sq :: string where
  "sq = [CHR 0x27]"

definition download_cells :: "string option \<Rightarrow> config \<Rightarrow> string \<Rightarrow> pydict list" where
  "download_cells zip_name cfg sec_folder =
     (case zip_name of
        None \<Rightarrow> []
      | Some z \<Rightarrow>
          (let branch = (case github_branch cfg of Some b \<Rightarrow> b | None \<Rightarrow> ''main'');
               out = (case output_dir cfg of Some d \<Rightarrow> d | None \<Rightarrow> ''docs'');
               url = (if sec_folder \<noteq> [] then out @ ''/'' @ sec_folder @ ''/'' @ url_quote z
                      else out @ ''/'' @ url_quote z)
           in if z = [] then []
              else [code_cell
                [''# Download and extract data files'' @ [CHR 0x0A],
                 ''import os'' @ [CHR 0x0A],
                 ''import urllib.request'' @ [CHR 0x0A],
                 ''import zipfile'' @ [CHR 0x0A],
                 [CHR 0x0A],
                 ''url = '' @ sq @ ''https://github.com/'' @ github_repo cfg @ ''/raw/'' @ branch
                   @ ''/'' @ url @ sq @ [CHR 0x0A],
                 ''print(f'' @ sq @ ''Downloading data from {url}...'' @ sq @ '')'' @ [CHR 0x0A],
                 ''urllib.request.urlretrieve(url, '' @ sq @ z @ sq @ '')'' @ [CHR 0x0A],
                 [CHR 0x0A],
                 ''print('' @ sq @ ''Extracting '' @ z @ ''...'' @ sq @ '')'' @ [CHR 0x0A],
                 ''with zipfile.ZipFile('' @ sq @ z @ sq @ '', '' @ sq @ ''r'' @ sq
                   @ '') as zip_ref:'' @ [CHR 0x0A],
                 ''    zip_ref.extractall('' @ sq @ ''.'' @ sq @ '')'' @ [CHR 0x0A],
                 [CHR 0x0A],
                 ''os.remove('' @ sq @ z @ sq @ '')'' @ [CHR 0x0A],
                 ''print('' @ sq @ glyph_check @ '' Data files extracted!'' @ sq @ '')'']]))"

definition create_setup_cells :: "string option \<Rightarrow> config \<Rightarrow> pyval \<Rightarrow> string \<Rightarrow> error + pydict list" where
  "create_setup_cells zip_name cfg install_packages sec_folder =
     (case install_cells install_packages of
        Inl e \<Rightarrow> Inl e
      | Inr ic \<Rightarrow> Inr (ic @ download_cells zip_name cfg sec_folder))"

text \<open>Sequencing of steps that may raise: the first exception ends the function.\<close>

definition bind_err :: "error + 'a \<Rightarrow> ('a \<Rightarrow> error + 'b) \<Rightarrow> error + 'b" where
  "bind_err m f = (case m of Inl e \<Rightarrow> Inl e | Inr x \<Rightarrow> f x)"

text \<open>
  The kernel identity written into the notebook metadata:
  \<^verbatim>\<open>
  if 'metadata' not in complete_nb:
      complete_nb['metadata'] = {}
  if 'kernelspec' not in complete_nb['metadata']:
      complete_nb['metadata']['kernelspec'] = {}
  complete_nb['metadata']['kernelspec']['name'] = 'python3'
  complete_nb['metadata']['kernelspec']['display_name'] = 'Python 3'
  complete_nb['metadata']['kernelspec']['language'] = 'python'
  \<close>
\<close>

definition set_kernel :: "pydict option \<Rightarrow> error + pydict" where
  "set_kernel md =
     (let md0 = (case md of None \<Rightarrow> [] | Some m \<Rightarrow> m)
      in case map_of md0 ''kernelspec'' of
           None \<Rightarrow> Inr (md0 @ [(''kernelspec'', PDict [(''name'', PStr ''python3''),
                     (''display_name'', PStr ''Python 3''), (''language'', PStr ''python'')])])
         | Some (PDict ks) \<Rightarrow>
             Inr (AList.update ''kernelspec''
                    (PDict (AList.update ''language'' (PStr ''python'')
                      (AList.update ''display_name'' (PStr ''Python 3'')
                        (AList.update ''name'' (PStr ''python3'') ks)))) md0)
         | Some _ \<Rightarrow> Inl TypeError)"

text \<open>
  The slide reference of a notebook: a link cell for both variants, and the check that
  the slide file exists.
  \<^verbatim>\<open>
  slide_file = metadata.get('slides')
  if slide_file:
      slide_link_cell = {"cell_type": "markdown", "metadata": {},
          "source": [f"**Slides:** [{Path(slide_file).name}](./{Path(slide_file).name})"]}
      insert_pos = len(setup_cells)
      complete_nb['cells'].insert(insert_pos, slide_link_cell)
      exercise_nb['cells'].insert(insert_pos, slide_link_cell)
      source_pdf = notebook_dir / slide_file
      if not source_pdf.exists():
          source_pdf = Path(slide_file)
      if source_pdf.exists():
          ...copy...
      else:
          ...
          sys.exit(1)
  \<close>
\<close>

definition slide_link_cell :: "string \<Rightarrow> pydict" where
  "slide_link_cell sf = [(''cell_type'', PStr ''markdown''), (''metadata'', PDict []),
     (''source'', PList [PStr (''**Slides:** ['' @ path_name sf @ ''](./'' @ path_name sf @ '')'')])]"

definition slide_found :: "env \<Rightarrow> string \<Rightarrow> string \<Rightarrow> bool" where
  "slide_found e dir sf = (path_exists e (path_join dir sf) \<or> path_exists e sf)"

definition slide_cells :: "env \<Rightarrow> string \<Rightarrow> pyval \<Rightarrow> error + pydict list" where
  "slide_cells e dir slide_file =
     (if \<not> truthy slide_file then Inr []
      else (case slide_file of
              PStr sf \<Rightarrow> if slide_found e dir sf then Inr [slide_link_cell sf] else Inl (SystemExit 1)
            | _ \<Rightarrow> Inl TypeError))"

text \<open>
  \<open>process_notebook(notebook_path, output_dir, config)\<close>.  The result is \<open>None\<close> when the
  notebook is skipped, and otherwise the two notebooks written (their cells and their
  common metadata) with the summary record.
\<close>

record nb_result =
  exercise_nb_cells :: "pydict list"
  complete_nb_cells :: "pydict list"
  out_metadata :: pydict
  info :: item

definition setup_needed :: "pydict \<Rightarrow> bool" where
  "setup_needed meta = (truthy (dget meta ''data_files'') \<or> truthy (dget meta ''install''))"

definition notebook_setup :: "string \<Rightarrow> string \<Rightarrow> pydict \<Rightarrow> config \<Rightarrow> error + pydict list" where
  "notebook_setup base_name dir_name meta cfg =
     (if setup_needed meta
      then create_setup_cells
             (if truthy (dget meta ''data_files'') then Some (base_name @ ''-data.zip'') else None)
             cfg
             (case map_of meta ''install'' of None \<Rightarrow> PStr ''pandas natural_pdf tqdm'' | Some v \<Rightarrow> v)
             dir_name
      else Inr [])"

definition notebook_info :: "string \<Rightarrow> string \<Rightarrow> pydict \<Rightarrow> item" where
  "notebook_info base_name dir_name meta =
     \<lparr>item_section = dir_name, section_folder = None, is_draft = False,
      description = (case map_of meta ''description'' of None \<Rightarrow> PStr [] | Some v \<Rightarrow> v),
      name = Some base_name,
      title = Some (case map_of meta ''title'' of None \<Rightarrow> PStr base_name | Some v \<Rightarrow> v),
      item_type = None, html_file = None,
      exercise_file = Some (dir_name @ ''/'' @ base_name @ ''.ipynb''),
      answers_file = Some (dir_name @ ''/'' @ base_name @ ''-ANSWERS.ipynb''),
      data_file = (if truthy (dget meta ''data_files'')
                   then Some (dir_name @ ''/'' @ base_name @ ''-data.zip'') else None),
      order = dget meta ''order'', links = dget meta ''links'', slides = dget meta ''slides'',
      section_slides = None\<rparr>"

definition process_notebook :: "env \<Rightarrow> file_path \<Rightarrow> notebook \<Rightarrow> config \<Rightarrow> error + nb_result option" where
  "process_notebook e notebook_path nb cfg =
     bind_err (apply_metadata_overrides notebook_path (get_notebook_metadata nb) cfg) (\<lambda>meta.
       if meta = [] then Inr None
       else
         (let base_name = path_stem (as_posix notebook_path);
              notebook_dir = path_parent (as_posix notebook_path);
              dir_name = path_name notebook_dir
          in bind_err (set_kernel (nb_metadata nb)) (\<lambda>md.
             bind_err (exercise_cells (cells nb)) (\<lambda>ex.
             bind_err (notebook_setup base_name dir_name meta cfg) (\<lambda>setup_cells.
             bind_err (slide_cells e notebook_dir (dget meta ''slides'')) (\<lambda>slide.
               Inr (Some \<lparr>exercise_nb_cells = setup_cells @ slide @ ex,
                          complete_nb_cells = setup_cells @ slide @ cells nb,
                          out_metadata = AList.update ''workshop'' (PDict meta) md,
                          info = notebook_info base_name dir_name meta\<rparr>)))))))"

section \<open>Slides and links\<close>

text \<open>
  \<open>generate_slide_embed(slide_file, notebook_dir, output_dir, item_type, section_folder)\<close>
  looks for the slide file below \<open>notebook_dir\<close>, then as a path of its own, and ends the
  process when neither exists.  The HTML it returns otherwise depends on the converters
  of the machine and comes from the environment.
  \<^verbatim>\<open>
  source_file = notebook_dir / slide_file
  if not source_file.exists():
      source_file = Path(slide_file)
      if not source_file.exists():
          ...
          sys.exit(1)
  \<close>
\<close>

definition generate_slide_embed ::
    "env \<Rightarrow> pyval \<Rightarrow> string \<Rightarrow> string \<Rightarrow> string option \<Rightarrow> error + string" where
  "generate_slide_embed e slide_file dir kind sec_folder =
     (case slide_file of
        PStr sf \<Rightarrow> if slide_found e dir sf then Inr (embed_html e sf dir kind sec_folder)
                   else Inl (SystemExit 1)
      | _ \<Rightarrow> Inl TypeError)"

text \<open>
  \<open>for link in links\<close> with \<open>link.get(...)\<close> in the body: \<open>links\<close> is a sequence of mappings;
  an entry without \<open>get\<close> raises \<open>AttributeError\<close>, a value that cannot be iterated raises
  \<open>TypeError\<close>.  The caller has tested that \<open>links\<close> is true.
\<close>

fun link_dicts :: "pyval list \<Rightarrow> error + pydict list" where
  "link_dicts [] = Inr []"
| "link_dicts (l # ls) =
     (case l of
        PDict d \<Rightarrow> (case link_dicts ls of Inl e \<Rightarrow> Inl e | Inr ds \<Rightarrow> Inr (d # ds))
      | _ \<Rightarrow> Inl AttributeError)"

definition link_items :: "pyval \<Rightarrow> error + pydict list" where
  "link_items ls =
     (case ls of
        PList xs \<Rightarrow> link_dicts xs
      | PDict d \<Rightarrow> Inl AttributeError
      | PStr s \<Rightarrow> Inl AttributeError
      | _ \<Rightarrow> Inl TypeError)"

definition link_field :: "pydict \<Rightarrow> string \<Rightarrow> string \<Rightarrow> pyval" where
  "link_field l k dflt = (case map_of l k of None \<Rightarrow> PStr dflt | Some v \<Rightarrow> v)"

text \<open>One line of a markdown list of links.\<close>

definition md_link_line :: "pydict \<Rightarrow> string" where
  "md_link_line l =
     (let nm = link_field l ''name'' ''Link''; url = link_field l ''url'' ''#'';
          desc = link_field l ''description'' ''''
      in if truthy desc
         then ''- ['' @ py_str nm @ ''](''  @ py_str url @ '') - '' @ py_str desc @ [CHR 0x0A]
         else ''- ['' @ py_str nm @ ''](''  @ py_str url @ '')'' @ [CHR 0x0A])"

section \<open>Markdown processing\<close>

text \<open>
  \<open>process_markdown(markdown_path, output_dir, config)\<close>: the page body that is handed to
  the HTML renderer, and the summary record.
\<close>

record md_result =
  page :: string
  md_info :: item

definition download_box :: "string \<Rightarrow> string \<Rightarrow> string" where
  "download_box label href_and_name =
     ''<div class=\"download-box\">'' @ [CHR 0x0A] @ ''<strong>'' @ label @ ''</strong> '' @ href_and_name
     @ [CHR 0x0A] @ ''</div>'' @ [CHR 0x0A, CHR 0x0A]"

definition zip_anchor :: "string \<Rightarrow> string \<Rightarrow> string" where
  "zip_anchor href zip_name =
     ''<a href=\"./'' @ href @ ''\">'' @ glyph_box @ '' '' @ zip_name @ ''</a>''"

definition markdown_info :: "string \<Rightarrow> string \<Rightarrow> pydict \<Rightarrow> item" where
  "markdown_info base_name dir_name fm =
     \<lparr>item_section = dir_name, section_folder = None, is_draft = False,
      description = (case map_of fm ''description'' of None \<Rightarrow> PStr [] | Some v \<Rightarrow> v),
      name = Some base_name,
      title = Some (case map_of fm ''title'' of None \<Rightarrow> PStr base_name | Some v \<Rightarrow> v),
      item_type = Some ''markdown'',
      html_file = Some (dir_name @ ''/'' @ base_name @ ''.html''),
      exercise_file = None, answers_file = None,
      data_file = (if truthy (dget fm ''data_files'')
                   then Some (dir_name @ ''/'' @ base_name @ ''-data.zip'') else None),
      order = dget fm ''order'', links = dget fm ''links'', slides = dget fm ''slides'',
      section_slides = None\<rparr>"

definition process_markdown :: "env \<Rightarrow> file_path \<Rightarrow> md_file \<Rightarrow> config \<Rightarrow> error + md_result" where
  "process_markdown e markdown_path f cfg =
     bind_err (apply_metadata_overrides markdown_path (md_frontmatter f) cfg) (\<lambda>fm.
       (let base_name = path_stem (as_posix markdown_path);
            markdown_dir = path_parent (as_posix markdown_path);
            dir_name = path_name markdown_dir;
            ttl = (case map_of fm ''title'' of None \<Rightarrow> PStr base_name | Some v \<Rightarrow> v);
            index_rel = (if dir_name = [] then ''index.html'' else ''../index.html'');
            head = ''['' @ glyph_back @ '' Back to main page]('' @ index_rel @ '')'' @ [CHR 0x0A, CHR 0x0A]
                   @ ''# '' @ py_str ttl @ [CHR 0x0A, CHR 0x0A];
            toc = generate_toc_from_markdown (md_body f) (truthy (dget fm ''links''));
            toc_part = (if toc \<noteq> [] then toc @ [CHR 0x0A] else []);
            zip_name = base_name @ ''-data.zip'';
            box = (if truthy (dget fm ''data_files'')
                   then download_box ''Download files:'' (zip_anchor zip_name zip_name) else [])
        in bind_err (if truthy (dget fm ''slides'')
                     then bind_err (generate_slide_embed e (dget fm ''slides'') markdown_dir ''markdown'' None)
                            (\<lambda>html. Inr (html @ [CHR 0x0A, CHR 0x0A]))
                     else Inr []) (\<lambda>slide_part.
           bind_err (if truthy (dget fm ''links'')
                     then bind_err (link_items (dget fm ''links''))
                            (\<lambda>ls. Inr (''## Useful Links'' @ [CHR 0x0A, CHR 0x0A]
                                        @ concat (map md_link_line ls) @ [CHR 0x0A]))
                     else Inr []) (\<lambda>links_part.
             Inr \<lparr>page = head @ toc_part @ box @ slide_part @ links_part @ md_body f,
                  md_info = markdown_info base_name dir_name fm\<rparr>))))"

section \<open>The index page\<close>

text \<open>
  The ordering of the items of a section:
  \<^verbatim>\<open>
  def sort_key(item):
      if item.get('order') is not None:
          return (0, item['order'], '')  # Items with order come first
      else:
          return (1, 0, item.get('name', ''))  # Then items without order

  sorted_items = sorted(section_items, key=sort_key)
  items_with_order = [item for item in sorted_items if item.get('order') is not None]
  items_without_order = sorted([item for item in sorted_items if item.get('order') is None],
                             key=lambda x: x.get('name', ''), reverse=True)
  sorted_items = items_with_order + items_without_order
  \<close>
  Python's \<open>sorted\<close> is stable, and with \<open>reverse=True\<close> it keeps equal elements in their
  original order: it is \<open>sort_key\<close> of the library, and \<open>py_sorted_reverse\<close> below.  Ordering
  keys are integers (a boolean counts as 0 or 1); \<open>order_key\<close> reads them, and the sort is
  meant for items whose \<open>order\<close> is an integer or \<open>None\<close>.  Strings compare by code
  point, which is the lexicographic order of their characters.
\<close>

definition order_key :: "pyval \<Rightarrow> int" where
  "order_key v = (case v of PInt i \<Rightarrow> i | PBool b \<Rightarrow> (if b then 1 else 0) | _ \<Rightarrow> 0)"

definition item_name :: "item \<Rightarrow> string" where
  "item_name it = (case name it of Some n \<Rightarrow> n | None \<Rightarrow> [])"

definition item_sort_key :: "item \<Rightarrow> nat \<times> int \<times> string" where
  "item_sort_key it =
     (if order it \<noteq> PNone then (0, order_key (order it), []) else (1, 0, item_name it))"

definition py_sorted_reverse :: "('a \<Rightarrow> 'k::linorder) \<Rightarrow> 'a list \<Rightarrow> 'a list" where
  "py_sorted_reverse f xs = rev (sort_key f (rev xs))"

definition sort_items :: "item list \<Rightarrow> item list" where
  "sort_items section_items =
     (let sorted_items = sort_key item_sort_key section_items;
          items_with_order = filter (\<lambda>it. order it \<noteq> PNone) sorted_items;
          items_without_order =
            py_sorted_reverse item_name (filter (\<lambda>it. order it = PNone) sorted_items)
      in items_with_order @ items_without_order)"

text \<open>The entry of one item: the body of the loop \<open>for item in sorted_items\<close>.  Reading a
  key that the record does not have raises \<open>KeyError\<close>.\<close>

definition need :: "string \<Rightarrow> 'a option \<Rightarrow> error + 'a" where
  "need k v = (case v of None \<Rightarrow> Inl (KeyError k) | Some x \<Rightarrow> Inr x)"

definition colab_url :: "config \<Rightarrow> string \<Rightarrow> string" where
  "colab_url cfg file =
     ''https://colab.research.google.com/github/'' @ github_repo cfg @ ''/blob/''
     @ (case github_branch cfg of Some b \<Rightarrow> b | None \<Rightarrow> ''main'') @ ''/''
     @ (case output_dir cfg of Some d \<Rightarrow> d | None \<Rightarrow> ''docs'') @ ''/'' @ file"

definition data_line :: "string option \<Rightarrow> string \<Rightarrow> string list" where
  "data_line df ending =
     (case df of
        None \<Rightarrow> []
      | Some d \<Rightarrow> if d = [] then []
                  else [glyph_box @ '' Data: <a href=\"./'' @ d @ ''\">'' @ d @ ''</a>'' @ ending])"

definition html_link_line :: "pydict \<Rightarrow> string" where
  "html_link_line l =
     (let nm = link_field l ''name'' ''Link''; url = link_field l ''url'' ''#'';
          desc = link_field l ''description'' ''''
      in if truthy desc
         then ''<li><a href=\"'' @ py_str url @ ''\">'' @ py_str nm @ ''</a> '' @ py_str desc
              @ ''</li>'' @ [CHR 0x0A]
         else ''<li><a href=\"'' @ py_str url @ ''\">'' @ py_str nm @ ''</a></li>'' @ [CHR 0x0A])"

definition item_head :: "config \<Rightarrow> string \<Rightarrow> item \<Rightarrow> error + string list" where
  "item_head cfg icon_prefix it =
     (if item_type it = Some ''markdown''
      then bind_err (need ''title'' (title it)) (\<lambda>t.
           bind_err (need ''html_file'' (html_file it)) (\<lambda>h.
             Inr [''### '' @ icon_prefix @ ''['' @ py_str t @ '' '' @ glyph_arrow @ ''](./'' @ h @ '')''
                  @ [CHR 0x0A]]))
      else bind_err (need ''exercise_file'' (exercise_file it)) (\<lambda>x.
           bind_err (need ''title'' (title it)) (\<lambda>t.
             Inr [''### '' @ icon_prefix @ ''['' @ py_str t @ '' '' @ glyph_arrow @ '']('' @ colab_url cfg x
                  @ '')'' @ [CHR 0x0A]])))"

definition item_files :: "config \<Rightarrow> item \<Rightarrow> error + string list" where
  "item_files cfg it =
     (if item_type it = Some ''markdown''
      then Inr ([''<div>'' @ [CHR 0x0A]] @ data_line (data_file it) (''<br>'' @ [CHR 0x0A])
                @ [''</div>'' @ [CHR 0x0A]])
      else bind_err (need ''exercise_file'' (exercise_file it)) (\<lambda>x.
           bind_err (need ''answers_file'' (answers_file it)) (\<lambda>a.
             Inr ([''<div class=\"resource-buttons\">'' @ [CHR 0x0A],
                   ''<a href=\"'' @ colab_url cfg x @ ''\" class=\"resource-button primary\">''
                     @ glyph_rocket @ '' Open in Colab</a>'' @ [CHR 0x0A],
                   ''<a href=\"'' @ colab_url cfg a @ ''\" class=\"resource-button completed\">''
                     @ glyph_check @ '' Completed (Colab)</a>'' @ [CHR 0x0A],
                   ''</div>'' @ [CHR 0x0A],
                   ''<div class=\"download-links\">'' @ [CHR 0x0A],
                   glyph_notebook @ '' Download: <a href=\"./'' @ x @ ''\">worksheet</a> | '',
                   ''<a href=\"./'' @ a @ ''\">completed</a><br>'' @ [CHR 0x0A]]
                  @ data_line (data_file it) [CHR 0x0A]
                  @ [''</div>'' @ [CHR 0x0A]]))))"

definition item_slides :: "item \<Rightarrow> error + string list" where
  "item_slides it =
     (if truthy (slides it) \<and> (case section_slides it of None \<Rightarrow> True | Some s \<Rightarrow> slides it \<noteq> PStr s)
      then (case slides it of
              PStr s \<Rightarrow>
                Inr [''<div style=\"margin: 0.5em 0; color: #666;\">'' @ glyph_slides
                     @ '' Slides: <a href=\"./'' @ s @ ''\">'' @ path_name s @ ''</a></div>'' @ [CHR 0x0A]]
            | _ \<Rightarrow> Inl TypeError)
      else Inr [])"

definition item_links :: "item \<Rightarrow> error + string list" where
  "item_links it =
     (if truthy (links it)
      then bind_err (link_items (links it)) (\<lambda>ls.
             Inr ([[CHR 0x0A] @ ''**Links:**'' @ [CHR 0x0A, CHR 0x0A], ''<ul>''] @ map html_link_line ls))
      else Inr [])"

definition render_item :: "config \<Rightarrow> string \<Rightarrow> item \<Rightarrow> error + string list" where
  "render_item cfg icon_prefix it =
     bind_err (item_head cfg icon_prefix it) (\<lambda>h.
     bind_err (item_files cfg it) (\<lambda>f.
     bind_err (item_slides it) (\<lambda>s.
     bind_err (item_links it) (\<lambda>l.
       Inr (h @ (if truthy (description it) then [py_str (description it) @ [CHR 0x0A]] else [])
            @ f @ s @ l @ [''</ul>'', [CHR 0x0A, CHR 0x0A], []])))))"

fun render_items :: "config \<Rightarrow> string \<Rightarrow> item list \<Rightarrow> error + string list" where
  "render_items cfg icon_prefix [] = Inr []"
| "render_items cfg icon_prefix (it # its) =
     bind_err (render_item cfg icon_prefix it) (\<lambda>x.
     bind_err (render_items cfg icon_prefix its) (\<lambda>xs. Inr (x @ xs)))"

text \<open>Grouping of the records by section title, and the section mappings of the
  configuration by title (a later entry replaces an earlier one of the same title).\<close>

definition sec_title_of :: "section_cfg \<Rightarrow> string" where
  "sec_title_of c = (case sec_title c of Some t \<Rightarrow> t | None \<Rightarrow> folder c)"

definition section_configs :: "config \<Rightarrow> (string \<times> section_cfg) list" where
  "section_configs cfg =
     foldl (\<lambda>m s. case s of SecDict c \<Rightarrow> AList.update (sec_title_of c) c m | SecName n \<Rightarrow> m)
       [] (sections cfg)"

definition group_items :: "item list \<Rightarrow> (string \<times> item list) list" where
  "group_items notebooks =
     foldl (\<lambda>m nb. AList.update (item_section nb)
                      ((case map_of m (item_section nb) of None \<Rightarrow> [] | Some xs \<Rightarrow> xs) @ [nb]) m)
       [] notebooks"

definition section_order :: "config \<Rightarrow> (string \<times> item list) list \<Rightarrow> string list" where
  "section_order cfg groups =
     (let declared = concat (map (\<lambda>s. case s of
                         SecDict c \<Rightarrow> if sec_title_of c \<in> fst ` set groups then [sec_title_of c] else []
                       | SecName n \<Rightarrow> []) (sections cfg))
      in declared @ filter (\<lambda>t. t \<notin> set declared) (sort (map fst groups)))"

text \<open>
  The part of the page for one section:
  \<^verbatim>\<open>
  section_items = sections.get(section, [])
  notebooks_md.append(f'\n## {section}\n')
  if section_items and len(section_items) == 1 and section_items[0].get('is_draft'):
      if section_items[0].get('description'):
          notebooks_md.append(f"\n{section_items[0]['description']}\n\n")
      notebooks_md.append("*Content will be uploaded later.*\n")
      continue
  ... section slides, section data box, sorted items ...
  \<close>
\<close>

definition draft_notice :: string where
  "draft_notice = ''*Content will be uploaded later.*'' @ [CHR 0x0A]"

definition section_heading :: "string \<Rightarrow> string" where
  "section_heading t = [CHR 0x0A] @ ''## '' @ t @ [CHR 0x0A]"

definition draft_body :: "item \<Rightarrow> string list" where
  "draft_body it =
     (if truthy (description it) then [[CHR 0x0A] @ py_str (description it) @ [CHR 0x0A, CHR 0x0A]] else [])
     @ [draft_notice]"

definition section_slides_part :: "env \<Rightarrow> config \<Rightarrow> section_cfg option \<Rightarrow> item list \<Rightarrow> error + string list" where
  "section_slides_part e cfg sc section_items =
     (case sc of
        None \<Rightarrow> Inr []
      | Some c \<Rightarrow>
          (case sec_slides c of
             None \<Rightarrow> Inr []
           | Some s \<Rightarrow>
               if s = [] then Inr []
               else bind_err
                      (case section_items of
                         it # its \<Rightarrow> need ''section_folder'' (section_folder it)
                       | [] \<Rightarrow> Inr (if folder c \<noteq> [] then folder c else ''.''))
                      (\<lambda>section_dir.
                         bind_err (generate_slide_embed e (PStr s) (path_parent section_dir) ''index''
                                     (if section_items = [] \<and> folder c = [] then None
                                      else Some (path_name section_dir)))
                           (\<lambda>html. Inr [[CHR 0x0A] @ html @ [CHR 0x0A]]))))"

definition section_data_part :: "section_cfg option \<Rightarrow> item list \<Rightarrow> error + string list" where
  "section_data_part sc section_items =
     (case sc of
        None \<Rightarrow> Inr []
      | Some c \<Rightarrow>
          if sec_data_files c = [] then Inr []
          else bind_err
                 (case section_items of
                    it # its \<Rightarrow> need ''section_folder'' (section_folder it)
                  | [] \<Rightarrow> Inr (folder c))
                 (\<lambda>sec_folder.
                    Inr (if sec_folder = [] then []
                         else [[CHR 0x0A] @ download_box ''Section files:''
                                 (zip_anchor (sec_folder @ ''/'' @ path_name sec_folder @ ''-data.zip'')
                                    (path_name sec_folder @ ''-data.zip''))])))"

definition render_section ::
    "env \<Rightarrow> config \<Rightarrow> (string \<times> item list) list \<Rightarrow> string \<Rightarrow> error + string list" where
  "render_section e cfg groups sec =
     (let section_items = (case map_of groups sec of None \<Rightarrow> [] | Some its \<Rightarrow> its)
      in if length section_items = 1 \<and> is_draft (hd section_items)
         then Inr (section_heading sec # draft_body (hd section_items))
         else
           (let sc = map_of (section_configs cfg) sec;
                icon_prefix = (case sc of
                                 None \<Rightarrow> []
                               | Some c \<Rightarrow> (case sec_icon c of
                                              None \<Rightarrow> []
                                            | Some i \<Rightarrow> if i = [] then [] else i @ '' ''))
            in bind_err (section_slides_part e cfg sc section_items) (\<lambda>sl.
               bind_err (section_data_part sc section_items) (\<lambda>da.
               bind_err (render_items cfg icon_prefix (sort_items section_items)) (\<lambda>body.
                 Inr (section_heading sec # sl @ da @ body))))))"

fun render_sections ::
    "env \<Rightarrow> config \<Rightarrow> (string \<times> item list) list \<Rightarrow> string list \<Rightarrow> error + string list" where
  "render_sections e cfg groups [] = Inr []"
| "render_sections e cfg groups (s # ss) =
     bind_err (render_section e cfg groups s) (\<lambda>x.
     bind_err (render_sections e cfg groups ss) (\<lambda>xs. Inr (x @ xs)))"

text \<open>The slides, data files and links that the configuration declares for the whole
  workshop.\<close>

definition root_declared :: "config \<Rightarrow> bool" where
  "root_declared cfg =
     ((case cfg_slides cfg of None \<Rightarrow> False | Some s \<Rightarrow> s \<noteq> []) \<or> cfg_data_files cfg \<noteq> []
      \<or> truthy (cfg_links cfg))"

definition root_content :: "env \<Rightarrow> config \<Rightarrow> error + string list" where
  "root_content e cfg =
     bind_err (case cfg_slides cfg of
                 None \<Rightarrow> Inr []
               | Some s \<Rightarrow> if s = [] then Inr []
                           else bind_err (generate_slide_embed e (PStr s) ''.'' ''index'' None)
                                  (\<lambda>html. Inr [html @ [CHR 0x0A]])) (\<lambda>sl.
     bind_err (if truthy (cfg_links cfg)
               then bind_err (link_items (cfg_links cfg))
                      (\<lambda>ls. Inr ([''## Useful Links'' @ [CHR 0x0A, CHR 0x0A]] @ map md_link_line ls
                                  @ [[CHR 0x0A]]))
               else Inr []) (\<lambda>li.
       Inr (sl
            @ (if cfg_data_files cfg \<noteq> []
               then [download_box ''Download files:'' (zip_anchor ''workshop-data.zip'' ''workshop-data.zip'')]
               else [])
            @ li)))"

text \<open>
  \<open>create_index(notebooks, config, output_dir)\<close> up to the list \<open>notebooks_md\<close> of page
  fragments; the page template is filled with them and \<open>index.html\<close> is written at the end
  of the function.
\<close>

definition create_index :: "env \<Rightarrow> config \<Rightarrow> item list \<Rightarrow> error + string list" where
  "create_index e cfg notebooks =
     (let groups = group_items notebooks
      in bind_err (root_content e cfg) (\<lambda>root.
         bind_err (render_sections e cfg groups (section_order cfg groups)) (\<lambda>body.
           Inr (root @ body))))"

section \<open>The run\<close>

text \<open>
  The loop of \<open>main\<close> over the configured sections.  A draft section yields one
  placeholder record and nothing else:
  \<^verbatim>\<open>
  if is_draft:
      processed_items.append({
          'section': title, 'section_folder': folder, 'is_draft': True,
          'description': section.get('description', '') if isinstance(section, dict) else ''
      })
      continue
  if not folder or not Path(folder).exists():
      continue
  ...
  for notebook_path in Path(folder).glob('*.ipynb'):
      if '.ipynb_checkpoints' in str(notebook_path):
          continue
      notebook_info = process_notebook(notebook_path, output_dir, config, section_cfg=section)
      if notebook_info:
          notebook_info['section'] = title
          notebook_info['section_folder'] = folder
          if section_slides:
              notebook_info['section_slides'] = section_slides
          processed_items.append(notebook_info)
  for markdown_path in Path(folder).glob('*.md'):
      ... the same with process_markdown ...
  \<close>
\<close>

definition placeholder :: "string \<Rightarrow> string \<Rightarrow> string \<Rightarrow> item" where
  "placeholder ttl fld desc =
     \<lparr>item_section = ttl, section_folder = Some fld, is_draft = True, description = PStr desc,
      name = None, title = None, item_type = None, html_file = None, exercise_file = None,
      answers_file = None, data_file = None, order = PNone, links = PNone, slides = PNone,
      section_slides = None\<rparr>"

definition in_section :: "string \<Rightarrow> string \<Rightarrow> string option \<Rightarrow> item \<Rightarrow> item" where
  "in_section ttl fld sl it =
     it\<lparr>item_section := ttl, section_folder := Some fld,
        section_slides := (case sl of None \<Rightarrow> section_slides it
                           | Some s \<Rightarrow> if s = [] then section_slides it else Some s)\<rparr>"

fun process_notebooks ::
    "env \<Rightarrow> config \<Rightarrow> string \<Rightarrow> string \<Rightarrow> string option \<Rightarrow> (file_path \<times> notebook) list
     \<Rightarrow> error + item list" where
  "process_notebooks e cfg ttl fld sl [] = Inr []"
| "process_notebooks e cfg ttl fld sl ((p, nb) # rest) =
     (if contains (as_posix p) ''.ipynb_checkpoints'' then process_notebooks e cfg ttl fld sl rest
      else bind_err (process_notebook e p nb cfg) (\<lambda>r.
           bind_err (process_notebooks e cfg ttl fld sl rest) (\<lambda>its.
             Inr ((case r of None \<Rightarrow> [] | Some res \<Rightarrow> [in_section ttl fld sl (info res)]) @ its))))"

fun process_markdowns ::
    "env \<Rightarrow> config \<Rightarrow> string \<Rightarrow> string \<Rightarrow> string option \<Rightarrow> (file_path \<times> md_file) list
     \<Rightarrow> error + item list" where
  "process_markdowns e cfg ttl fld sl [] = Inr []"
| "process_markdowns e cfg ttl fld sl ((p, f) # rest) =
     bind_err (process_markdown e p f cfg) (\<lambda>r.
     bind_err (process_markdowns e cfg ttl fld sl rest) (\<lambda>its.
       Inr (in_section ttl fld sl (md_info r) # its)))"

text \<open>What the loop reads from a section entry, a mapping or a bare folder name.\<close>

definition entry_folder :: "section_entry \<Rightarrow> string" where
  "entry_folder s = (case s of SecDict c \<Rightarrow> folder c | SecName n \<Rightarrow> n)"

definition entry_title :: "section_entry \<Rightarrow> string" where
  "entry_title s = (case s of SecDict c \<Rightarrow> sec_title_of c | SecName n \<Rightarrow> n)"

definition entry_slides :: "section_entry \<Rightarrow> string option" where
  "entry_slides s = (case s of SecDict c \<Rightarrow> sec_slides c | SecName n \<Rightarrow> None)"

definition entry_draft :: "section_entry \<Rightarrow> bool" where
  "entry_draft s = (case s of SecDict c \<Rightarrow> draft c | SecName n \<Rightarrow> False)"

definition entry_description :: "section_entry \<Rightarrow> string" where
  "entry_description s =
     (case s of SecDict c \<Rightarrow> (case sec_description c of Some d \<Rightarrow> d | None \<Rightarrow> [])
      | SecName n \<Rightarrow> [])"

definition process_section :: "env \<Rightarrow> config \<Rightarrow> section_entry \<Rightarrow> error + item list" where
  "process_section e cfg s =
     (let fld = entry_folder s; ttl = entry_title s; sl = entry_slides s
      in if entry_draft s then Inr [placeholder ttl fld (entry_description s)]
         else if fld = [] \<or> \<not> path_exists e fld then Inr []
         else bind_err (process_notebooks e cfg ttl fld sl (notebooks_in e fld)) (\<lambda>nbs.
              bind_err (process_markdowns e cfg ttl fld sl (markdowns_in e fld)) (\<lambda>mds.
                Inr (nbs @ mds))))"

fun process_sections :: "env \<Rightarrow> config \<Rightarrow> section_entry list \<Rightarrow> error + item list" where
  "process_sections e cfg [] = Inr []"
| "process_sections e cfg (s # ss) =
     bind_err (process_section e cfg s) (\<lambda>x.
     bind_err (process_sections e cfg ss) (\<lambda>xs. Inr (x @ xs)))"

text \<open>
  \<open>main\<close>, from the loaded configuration to the written index: the exit status of the
  process, the fragments of the index page when it was written, and the records
  collected.  Publishing to git follows and is not modelled.
  \<^verbatim>\<open>
  if not sections:
      if config.get('slides') or config.get('data_files') or config.get('links'):
          ...
      else:
          return
  for section in sections: ...
  if processed_items or config.get('slides') or config.get('data_files') or config.get('links'):
      create_index(processed_items, config, output_dir)
  \<close>
\<close>

record run_result =
  exit_code :: nat
  index_written :: "string list option"
  processed_items :: "item list"

definition main :: "env \<Rightarrow> config \<Rightarrow> run_result" where
  "main e cfg =
     (if sections cfg = [] \<and> \<not> root_declared cfg
      then \<lparr>exit_code = 0, index_written = None, processed_items = []\<rparr>
      else (case process_sections e cfg (sections cfg) of
              Inl err \<Rightarrow> \<lparr>exit_code = exit_status err, index_written = None, processed_items = []\<rparr>
            | Inr its \<Rightarrow>
                if its \<noteq> [] \<or> root_declared cfg
                then (case create_index e cfg its of
                        Inl err \<Rightarrow> \<lparr>exit_code = exit_status err, index_written = None,
                                    processed_items = its\<rparr>
                      | Inr md \<Rightarrow> \<lparr>exit_code = 0, index_written = Some md, processed_items = its\<rparr>)
                else \<lparr>exit_code = 0, index_written = None, processed_items = its\<rparr>))"

section \<open>The store of objects\<close>

text \<open>
  The merge once more, on mutable objects.  A mapping or a list is an object of the store,
  found at its address; a value is a scalar or the address of an object, so that two
  mappings can hold the same object.  \<open>dict(x)\<close> and \<open>{}\<close> allocate a new object at the end
  of the store, and \<open>result[k] = v\<close> changes the object at the address of \<open>result\<close>.
\<close>

datatype hval = HNone | HBool bool | HInt int | HStr string | Ref nat

datatype obj = ODict "(string \<times> hval) list" | OList "hval list"

type_synonym heap = "obj list"

text \<open>
  \<open>isinstance(v, dict)\<close> with the entries of the mapping, the truth value of \<open>v\<close>, \<open>d.get(k)\<close>
  and \<open>a or b\<close>.
\<close>

definition h_dict :: "heap \<Rightarrow> hval \<Rightarrow> (string \<times> hval) list option" where
  "h_dict h v =
     (case v of
        Ref a \<Rightarrow> if a < length h then (case h ! a of ODict d \<Rightarrow> Some d | OList xs \<Rightarrow> None) else None
      | _ \<Rightarrow> None)"

definition h_truthy :: "heap \<Rightarrow> hval \<Rightarrow> bool" where
  "h_truthy h v =
     (case v of
        HNone \<Rightarrow> False
      | HBool b \<Rightarrow> b
      | HInt i \<Rightarrow> i \<noteq> 0
      | HStr s \<Rightarrow> s \<noteq> []
      | Ref a \<Rightarrow> a < length h \<and> (case h ! a of ODict d \<Rightarrow> d \<noteq> [] | OList xs \<Rightarrow> xs \<noteq> []))"

definition h_get :: "(string \<times> hval) list \<Rightarrow> string \<Rightarrow> hval" where
  "h_get d k = (case map_of d k of None \<Rightarrow> HNone | Some v \<Rightarrow> v)"

definition h_or :: "heap \<Rightarrow> hval \<Rightarrow> hval \<Rightarrow> hval" where
  "h_or h a b = (if h_truthy h a then a else b)"

text \<open>\<open>result[k] = v\<close>: a key that is present keeps its place, a new key goes to the end.\<close>

definition set_item :: "heap \<Rightarrow> nat \<Rightarrow> string \<Rightarrow> hval \<Rightarrow> heap" where
  "set_item h r k v =
     (case h_dict h (Ref r) of Some d \<Rightarrow> h[r := ODict (AList.update k v d)] | None \<Rightarrow> h)"

text \<open>
  \<^verbatim>\<open>
  def _deep_merge(base, override):
      if not isinstance(base, dict):
          base = {}
      result = dict(base)
      for k, v in (override or {}).items():
          if isinstance(v, dict) and isinstance(result.get(k), dict):
              result[k] = _deep_merge(result.get(k, {}), v)
          else:
              result[k] = v
      return result
  \<close>
  The result is the address of \<open>result\<close>, or the exception, with the store at that moment.
  The recursion follows the mappings below \<open>override\<close>, which the store allows to hold
  themselves; the first argument bounds the depth of the calls, and \<open>None\<close> says that the
  bound was reached.  \<open>items()\<close> of a value that is true and no mapping raises
  \<open>AttributeError\<close>.  The loop runs over the entries that \<open>override\<close> has when it starts.
\<close>

function (sequential)
  deep_merge_h :: "nat \<Rightarrow> heap \<Rightarrow> hval \<Rightarrow> hval \<Rightarrow> ((error + nat) \<times> heap) option"
  and merge_items_h ::
    "nat \<Rightarrow> heap \<Rightarrow> nat \<Rightarrow> (string \<times> hval) list \<Rightarrow> ((error + nat) \<times> heap) option" where
  "deep_merge_h 0 h base override = None"
| "deep_merge_h (Suc n) h base override =
     (let h1 = (case h_dict h base of None \<Rightarrow> h @ [ODict []] | Some d \<Rightarrow> h);
          h2 = h1 @ [ODict (case h_dict h base of None \<Rightarrow> [] | Some d \<Rightarrow> d)];
          result = length h1
      in if \<not> h_truthy h2 override then Some (Inr result, h2 @ [ODict []])
         else (case h_dict h2 override of
                 None \<Rightarrow> Some (Inl AttributeError, h2)
               | Some items \<Rightarrow> merge_items_h n h2 result items))"
| "merge_items_h n h result [] = Some (Inr result, h)"
| "merge_items_h n h result ((k, v) # rest) =
     (let cur = h_get (case h_dict h (Ref result) of None \<Rightarrow> [] | Some d \<Rightarrow> d) k
      in if h_dict h v \<noteq> None \<and> h_dict h cur \<noteq> None
         then (case deep_merge_h n (h @ [ODict []]) cur v of
                 None \<Rightarrow> None
               | Some (Inl e, h') \<Rightarrow> Some (Inl e, h')
               | Some (Inr a, h') \<Rightarrow> merge_items_h n (set_item h' result k (Ref a)) result rest)
         else merge_items_h n (set_item h result k v) result rest)"
  by pat_completeness auto

termination
  by (relation "inv_image (less_than <*lex*> less_than <*lex*> less_than)
        (\<lambda>x. case x of Inl (n, h, b, ov) \<Rightarrow> (n, 0, 0)
                      | Inr (n, h, r, items) \<Rightarrow> (n, Suc 0, length items))") auto

text \<open>
  The generator \<open>_iter_metadata_overrides\<close> runs in step with the loop that consumes it.
  Its input is an entry \<open>pat: vals\<close> of a mapping of rules, or an item of a list of rules;
  \<open>next_rule\<close> gives the rule that it yields, if any.  An item with no \<open>values\<close> and no
  \<open>merge\<close> yields a new mapping of its other keys:
  \<^verbatim>\<open>
  values = {k: v for k, v in item.items() if k not in ('pattern', 'file', 'match')}
  \<close>
\<close>

datatype rule_src = Entry string hval | Item hval

definition next_rule :: "heap \<Rightarrow> rule_src \<Rightarrow> heap \<times> (hval \<times> hval) option" where
  "next_rule h src =
     (case src of
        Entry pat vals \<Rightarrow> (h, if h_dict h vals \<noteq> None then Some (HStr pat, vals) else None)
      | Item x \<Rightarrow>
          (case h_dict h x of
             None \<Rightarrow> (h, None)
           | Some d \<Rightarrow>
               (let pattern = h_or h (h_or h (h_get d ''pattern'') (h_get d ''file'')) (h_get d ''match'');
                    vals0 = h_or h (h_get d ''values'') (h_get d ''merge'');
                    h1 = (if h_truthy h vals0 then h
                          else h @ [ODict (filter (\<lambda>kv. fst kv \<notin> {''pattern'', ''file'', ''match''}) d)]);
                    vals = (if h_truthy h vals0 then vals0 else Ref (length h))
                in (h1, if h_truthy h1 pattern \<and> h_dict h1 vals \<noteq> None
                        then Some (pattern, vals) else None))))"

definition rule_sources :: "heap \<Rightarrow> hval \<Rightarrow> hval \<Rightarrow> rule_src list" where
  "rule_sources h overrides_v metadata_v =
     (let md = h_or h overrides_v metadata_v
      in if \<not> h_truthy h md then []
         else (case md of
                 Ref a \<Rightarrow> (case h ! a of
                             ODict d \<Rightarrow> map (\<lambda>(pat, vals). Entry pat vals) d
                           | OList xs \<Rightarrow> map Item xs)
               | _ \<Rightarrow> []))"

text \<open>
  \<open>apply_metadata_overrides\<close> on the store: \<open>merged = dict(meta or {})\<close>, then one merge for
  each rule whose pattern matches.  \<open>overrides_v\<close> and \<open>metadata_v\<close> are the values of the
  keys \<open>metadata_overrides\<close> and \<open>metadata\<close> of the configuration.
\<close>

fun apply_rules_h ::
    "nat \<Rightarrow> heap \<Rightarrow> string \<Rightarrow> string \<Rightarrow> nat \<Rightarrow> rule_src list \<Rightarrow> ((error + nat) \<times> heap) option" where
  "apply_rules_h n h rel nm merged [] = Some (Inr merged, h)"
| "apply_rules_h n h rel nm merged (src # rest) =
     (case next_rule h src of
        (h1, None) \<Rightarrow> apply_rules_h n h1 rel nm merged rest
      | (h1, Some (pattern, vals)) \<Rightarrow>
          (case pattern of
             HStr pat \<Rightarrow>
               if rule_applies rel nm pat
               then (case deep_merge_h n h1 (Ref merged) vals of
                       None \<Rightarrow> None
                     | Some (Inl e, h2) \<Rightarrow> Some (Inl e, h2)
                     | Some (Inr r, h2) \<Rightarrow> apply_rules_h n h2 rel nm r rest)
               else apply_rules_h n h1 rel nm merged rest
           | _ \<Rightarrow> Some (Inl TypeError, h1)))"

definition apply_metadata_overrides_h ::
    "nat \<Rightarrow> heap \<Rightarrow> file_path \<Rightarrow> hval \<Rightarrow> hval \<Rightarrow> hval \<Rightarrow> ((error + nat) \<times> heap) option" where
  "apply_metadata_overrides_h n h fp meta overrides_v metadata_v =
     (let h1 = (if h_truthy h meta then h else h @ [ODict []]);
          src = (if h_truthy h meta then meta else Ref (length h))
      in case h_dict h1 src of
           None \<Rightarrow> Some (Inl TypeError, h1)
         | Some d \<Rightarrow>
             apply_rules_h n (h1 @ [ODict d]) (rel_path fp) (path_name (as_posix fp)) (length h1)
               (rule_sources (h1 @ [ODict d]) overrides_v metadata_v))"

text \<open>
  For the proof that the merge returns: \<open>within d P v\<close> says that \<open>v\<close> is a value of the
  store \<open>P\<close> (its address is allocated) and that mappings nest at most \<open>d\<close> deep below it,
  so that no mapping holds itself.
\<close>

fun within :: "nat \<Rightarrow> heap \<Rightarrow> hval \<Rightarrow> bool" where
  "within 0 P v =
     (case v of
        Ref a \<Rightarrow> a < length P \<and> (case P ! a of ODict es \<Rightarrow> False | OList xs \<Rightarrow> True)
      | _ \<Rightarrow> True)"
| "within (Suc d) P v =
     (case v of
        Ref a \<Rightarrow> a < length P
                 \<and> (case P ! a of ODict es \<Rightarrow> list_all (\<lambda>kv. within d P (snd kv)) es | OList xs \<Rightarrow> True)
      | _ \<Rightarrow> True)"

definition src_within :: "nat \<Rightarrow> heap \<Rightarrow> rule_src \<Rightarrow> bool" where
  "src_within d P src = (case src of Entry pat vals \<Rightarrow> within (Suc d) P vals | Item x \<Rightarrow> within (Suc d) P x)"

definition in_store :: "heap \<Rightarrow> hval \<Rightarrow> bool" where
  "in_store h v = (case v of Ref a \<Rightarrow> a < length h | _ \<Rightarrow> True)"

section \<open>Example inputs\<close>

text \<open>Two notebooks in two section folders of the working directory.\<close>

definition intro1 :: file_path where
  "intro1 = \<lparr>as_posix = ''section1/intro.ipynb'', rel_to_cwd = Some ''section1/intro.ipynb''\<rparr>"

definition intro2 :: file_path where
  "intro2 = \<lparr>as_posix = ''section2/intro.ipynb'', rel_to_cwd = Some ''section2/intro.ipynb''\<rparr>"

text \<open>A configuration with no sections and no override rules.\<close>

definition empty_config :: config where
  "empty_config = \<lparr>github_repo = ''jsoma/workshop'', github_branch = None,
     output_dir = None, sections = [], cfg_slides = None, cfg_data_files = [], cfg_links = PNone,
     metadata_overrides = PNone, metadata = PNone\<rparr>"

text \<open>
  \<^verbatim>\<open>
  metadata_overrides:
    - pattern: "section1/*.ipynb"
      values: {title: "Intro"}
  \<close>
\<close>

definition one_rule_config :: config where
  "one_rule_config = empty_config\<lparr>metadata_overrides :=
     PList [PDict [(''pattern'', PStr ''section1/*.ipynb''),
                   (''values'', PDict [(''title'', PStr ''Intro'')])]]\<rparr>"

text \<open>
  \<^verbatim>\<open>
  metadata_overrides:
    - pattern: "section1/*.ipynb"
      values: {opts: {b: 2}}
    - pattern: "*.ipynb"
      order: 3
  \<close>
\<close>

definition two_rule_config :: config where
  "two_rule_config = empty_config\<lparr>metadata_overrides :=
     PList [PDict [(''pattern'', PStr ''section1/*.ipynb''),
                   (''values'', PDict [(''opts'', PDict [(''b'', PInt 2)])])],
            PDict [(''pattern'', PStr ''*.ipynb''), (''order'', PInt 3)]]\<rparr>"



text \<open>An environment in which only the folder \<open>section1\<close> exists, with no files in it.\<close>

definition quiet_env :: env where
  "quiet_env = \<lparr>path_exists = (\<lambda>p. p = ''section1''), notebooks_in = (\<lambda>f. []),
     markdowns_in = (\<lambda>f. []), embed_html = (\<lambda>sf dir kind sec. [])\<rparr>"




text \<open>A notebook that asks for a package and whose only cell is tagged \<open>solution\<close>.\<close>

definition solution_cell :: pydict where
  "solution_cell = [(''cell_type'', PStr ''code''),
     (''metadata'', PDict [(''tags'', PList [PStr ''solution''])]),
     (''source'', PList [PStr ''x = 1'']), (''execution_count'', PInt 1), (''outputs'', PList [])]"

definition solved_notebook :: notebook where
  "solved_notebook = \<lparr>nb_metadata = Some [(''workshop'', PDict [(''install'', PStr ''pandas'')])],
     cells = [solution_cell]\<rparr>"

text \<open>The same cell in a notebook whose metadata asks for nothing to be prepended.\<close>

definition plain_notebook :: notebook where
  "plain_notebook = \<lparr>nb_metadata = Some [(''workshop'', PDict [(''title'', PStr ''Intro'')])],
     cells = [solution_cell]\<rparr>"

text \<open>What \<open>process_notebook\<close> makes of \<open>solved_notebook\<close> at \<open>section1/intro.ipynb\<close>.\<close>

definition install_pandas_cell :: pydict where
  "install_pandas_cell = code_cell [''# Install required packages'' @ [CHR 0x0A],
     ''%pip install --upgrade --quiet pandas'' @ [CHR 0x0A]]"

definition solved_result :: nb_result where
  "solved_result = \<lparr>exercise_nb_cells = [install_pandas_cell, empty_code_cell],
     complete_nb_cells = [install_pandas_cell, solution_cell],
     out_metadata = [(''workshop'', PDict [(''install'', PStr ''pandas'')]),
                     (''kernelspec'', PDict [(''name'', PStr ''python3''),
                        (''display_name'', PStr ''Python 3''), (''language'', PStr ''python'')])],
     info = notebook_info ''intro'' ''section1'' [(''install'', PStr ''pandas'')]\<rparr>"


text \<open>
  A notebook and a markdown page in \<open>section1\<close> that both name the slide file \<open>deck.pdf\<close>,
  in an environment where no such file exists.
\<close>

definition slides_notebook :: notebook where
  "slides_notebook = \<lparr>nb_metadata = Some [(''workshop'', PDict [(''slides'', PStr ''deck.pdf'')])],
     cells = []\<rparr>"

definition notes_md :: file_path where
  "notes_md = \<lparr>as_posix = ''section1/notes.md'', rel_to_cwd = Some ''section1/notes.md''\<rparr>"

definition slides_markdown :: md_file where
  "slides_markdown = \<lparr>md_frontmatter = PDict [(''slides'', PStr ''deck.pdf'')], md_body = ''## Setup''\<rparr>"

definition slides_env :: env where
  "slides_env = quiet_env\<lparr>
     notebooks_in := (\<lambda>f. if f = ''section1'' then [(intro1, slides_notebook)] else []),
     markdowns_in := (\<lambda>f. if f = ''section1'' then [(notes_md, slides_markdown)] else [])\<rparr>"

definition slides_config :: config where
  "slides_config = empty_config\<lparr>sections := [SecName ''section1'']\<rparr>"

text \<open>
  Two draft sections under one title:
  \<^verbatim>\<open>
  sections:
    - {folder: week3, title: "Coming soon", draft: true}
    - {folder: week4, title: "Coming soon", draft: true}
  \<close>
\<close>

definition draft_entry :: "string \<Rightarrow> section_cfg" where
  "draft_entry fld = \<lparr>folder = fld, sec_title = Some ''Coming soon'', sec_slides = None,
     sec_data_files = [], sec_icon = None, draft = True, sec_description = None\<rparr>"

definition soon_config :: config where
  "soon_config = empty_config\<lparr>sections := [SecDict (draft_entry ''week3''),
     SecDict (draft_entry ''week4'')]\<rparr>"

text \<open>The first of them alone.\<close>

definition one_draft_config :: config where
  "one_draft_config = empty_config\<lparr>sections := [SecDict (draft_entry ''week3'')]\<rparr>"

text \<open>
  A store with the metadata \<open>{title: "Old", opts: {a: 1}}\<close> at address 0 and the list of
  rules \<open>[{pattern: "section1/*.ipynb", values: {opts: {b: 2}, title: "New"}}]\<close> at
  address 2, and the store after the rule has been merged for \<open>section1/intro.ipynb\<close>.
\<close>

definition store0 :: heap where
  "store0 = [ODict [(''title'', HStr ''Old''), (''opts'', Ref 1)],
             ODict [(''a'', HInt 1)],
             OList [Ref 3],
             ODict [(''pattern'', HStr ''section1/*.ipynb''), (''values'', Ref 4)],
             ODict [(''opts'', Ref 5), (''title'', HStr ''New'')],
             ODict [(''b'', HInt 2)]]"

definition store1 :: heap where
  "store1 = store0 @ [ODict [(''title'', HStr ''Old''), (''opts'', Ref 1)],
                      ODict [(''title'', HStr ''New''), (''opts'', Ref 9)],
                      ODict [],
                      ODict [(''a'', HInt 1), (''b'', HInt 2)]]"
section \<open>Properties of the deep merge\<close>

lemma merge_loop_step:
  "merge_loop r ((k, v) # items) = merge_loop (AList.update k (merge_value (map_of r k) v) r) items"
  by (cases v; cases "map_of r k"; simp split: pyval.splits)

lemma keys_merge_loop:
  "distinct (map fst ov) \<Longrightarrow>
   map fst (merge_loop r ov) = map fst r @ filter (\<lambda>k. k \<notin> set (map fst r)) (map fst ov)"
proof (induction ov arbitrary: r)
  case Nil
  then show ?case by simp
next
  case (Cons kv ov)
  obtain k v where kv: "kv = (k, v)" by (cases kv)
  have d: "distinct (map fst ov)" and nk: "k \<notin> set (map fst ov)"
    using Cons.prems kv by auto
  show ?case
    unfolding kv merge_loop_step
    using nk by (auto simp: Cons.IH[OF d] update_keys filter_id_conv intro!: filter_cong)
qed

lemma map_of_merge_loop:
  "distinct (map fst ov) \<Longrightarrow>
   map_of (merge_loop r ov) k =
     (case map_of ov k of None \<Rightarrow> map_of r k | Some v \<Rightarrow> Some (merge_value (map_of r k) v))"
proof (induction ov arbitrary: r)
  case Nil
  then show ?case by simp
next
  case (Cons kv ov)
  obtain k' v where kv: "kv = (k', v)" by (cases kv)
  have d: "distinct (map fst ov)" and nk: "k' \<notin> set (map fst ov)"
    using Cons.prems kv by auto
  have none: "map_of ov k' = None" using nk by (simp add: map_of_eq_None_iff)
  show ?case
    unfolding kv merge_loop_step
    using none by (auto simp: Cons.IH[OF d] update_conv' split: option.splits)
qed

lemma alist_ext:
  "distinct (map fst xs) \<Longrightarrow> map fst xs = map fst ys \<Longrightarrow> map_of xs = map_of ys \<Longrightarrow> xs = ys"
proof (induction xs arbitrary: ys)
  case Nil
  then show ?case by simp
next
  case (Cons x xs)
  then obtain y ys' where ys: "ys = y # ys'" by (cases ys) auto
  obtain k v where x: "x = (k, v)" by (cases x)
  obtain k' v' where y: "y = (k', v')" by (cases y)
  have kk: "k' = k" using Cons.prems(2) ys x y by simp
  have "map_of (x # xs) k = map_of ys k" using Cons.prems(3) by (rule fun_cong)
  then have vv: "v' = v" using ys x y kk by simp
  have nk: "k \<notin> set (map fst xs)" using Cons.prems(1) x by simp
  have "map_of xs = map_of ys'"
  proof
    fix j
    show "map_of xs j = map_of ys' j"
    proof (cases "j = k")
      case True
      have "map fst ys' = map fst xs" using Cons.prems(2) ys by simp
      then have "k \<notin> set (map fst ys')" using nk by metis
      then have "map_of ys' k = None" by (simp add: map_of_eq_None_iff)
      moreover have "map_of xs k = None" using nk by (simp add: map_of_eq_None_iff)
      ultimately show ?thesis using True by simp
    next
      case False
      have "map_of (x # xs) j = map_of ys j" using Cons.prems(3) by (rule fun_cong)
      then show ?thesis using False ys x y kk by simp
    qed
  qed
  then have "xs = ys'" using Cons.IH[of ys'] Cons.prems ys by simp
  then show ?case using ys x y kk vv by simp
qed


lemma merge_value_not_dict: "\<not> is_dict v \<Longrightarrow> merge_value x v = v"
  by (cases v; cases x; simp)

lemma merge_value_base_not_dict: "(\<And>b. x \<noteq> Some (PDict b)) \<Longrightarrow> merge_value x v = v"
  by (cases "(x, v)" rule: merge_value.cases) auto

lemma size_map_of:
  "map_of d k = Some v \<Longrightarrow> size v < size (PDict d)"
  by (induction d) (auto split: if_splits)

lemma wf_val_map_of: "wf_val (PDict d) \<Longrightarrow> map_of d k = Some v \<Longrightarrow> wf_val v"
  by (auto dest: map_of_SomeD)

lemma distinct_merge_loop:
  "distinct (map fst r) \<Longrightarrow> distinct (map fst ov) \<Longrightarrow> distinct (map fst (merge_loop r ov))"
  by (auto simp: keys_merge_loop)

lemma wf_merge_loop:
  "wf_val (PDict r) \<Longrightarrow> wf_val (PDict ov) \<Longrightarrow> wf_val (PDict (merge_loop r ov))"
proof (induction "size (PDict ov)" arbitrary: r ov rule: less_induct)
  case less
  have dr: "distinct (map fst r)" and dov: "distinct (map fst ov)"
    using less.prems by auto
  have "wf_val v" if mem: "(k, v) \<in> set (merge_loop r ov)" for k v
  proof -
    have "map_of (merge_loop r ov) k = Some v"
      using mem distinct_merge_loop[OF dr dov] by simp
    then have v: "(case map_of ov k of None \<Rightarrow> map_of r k
                   | Some v' \<Rightarrow> Some (merge_value (map_of r k) v')) = Some v"
      by (simp add: map_of_merge_loop[OF dov])
    show ?thesis
    proof (cases "map_of ov k")
      case None
      then show ?thesis using v less.prems(1) wf_val_map_of by auto
    next
      case (Some v')
      then have v_eq: "v = merge_value (map_of r k) v'" using v by simp
      have wv': "wf_val v'" using Some less.prems(2) wf_val_map_of by blast
      show ?thesis
      proof (cases "\<exists>b d. map_of r k = Some (PDict b) \<and> v' = PDict d")
        case True
        then obtain b d where b: "map_of r k = Some (PDict b)" and d: "v' = PDict d" by blast
        have "size (PDict d) < size (PDict ov)" using Some d size_map_of by blast
        moreover have "wf_val (PDict b)" using b less.prems(1) wf_val_map_of by blast
        ultimately have "wf_val (PDict (merge_loop b d))"
          using less.hyps wv' d by blast
        then show ?thesis using v_eq b d by simp
      next
        case False
        then have "merge_value (map_of r k) v' = v'"
          by (cases "(map_of r k, v')" rule: merge_value.cases) auto
        then show ?thesis using v_eq wv' by simp
      qed
    qed
  qed
  then show ?case using distinct_merge_loop[OF dr dov] by auto
qed

lemma merge_compatible_lookup:
  "merge_compatible m a b \<Longrightarrow> (k, va) \<in> set a \<Longrightarrow> map_of m k = Some (PDict x) \<Longrightarrow>
   map_of b k = Some (PDict y) \<Longrightarrow> \<exists>a'. va = PDict a' \<and> merge_compatible x a' y"
proof (induction a)
  case Nil
  then show ?case by simp
next
  case (Cons p a)
  obtain k' v' where p: "p = (k', v')" by (cases p)
  show ?case
  proof (cases "(k, va) = p")
    case True
    then have "k' = k" "v' = va" using p by auto
    with Cons.prems(1,3,4) p show ?thesis by (cases va) auto
  next
    case False
    then have "(k, va) \<in> set a" using Cons.prems(2) by simp
    moreover have "merge_compatible m a b" using Cons.prems(1) p by simp
    ultimately show ?thesis using Cons.IH Cons.prems(3,4) by blast
  qed
qed

lemma merge_loop_assoc:
  assumes "wf_val (PDict m)" "wf_val (PDict a)" "wf_val (PDict b)" "merge_compatible m a b"
  shows "merge_loop (merge_loop m a) b = merge_loop m (merge_loop a b)"
  using assms
proof (induction "size (PDict a)" arbitrary: m a b rule: less_induct)
  case less
  have dm: "distinct (map fst m)" and da: "distinct (map fst a)" and db: "distinct (map fst b)"
    using less.prems by auto
  note dma = distinct_merge_loop[OF dm da]
  note dab = distinct_merge_loop[OF da db]
  show ?case
  proof (rule alist_ext)
    show "distinct (map fst (merge_loop (merge_loop m a) b))"
      by (rule distinct_merge_loop[OF dma db])
    show "map fst (merge_loop (merge_loop m a) b) = map fst (merge_loop m (merge_loop a b))"
      by (auto simp: keys_merge_loop[OF db] keys_merge_loop[OF da] keys_merge_loop[OF dab]
          intro!: filter_cong)
    show "map_of (merge_loop (merge_loop m a) b) = map_of (merge_loop m (merge_loop a b))"
    proof
      fix k
      show "map_of (merge_loop (merge_loop m a) b) k = map_of (merge_loop m (merge_loop a b)) k"
      proof (cases "map_of b k")
        case None
        then show ?thesis
          by (simp add: map_of_merge_loop[OF db] map_of_merge_loop[OF da] map_of_merge_loop[OF dab])
      next
        case vb: (Some vb)
        show ?thesis
        proof (cases "map_of a k")
          case None
          then show ?thesis using vb
            by (simp add: map_of_merge_loop[OF db] map_of_merge_loop[OF da] map_of_merge_loop[OF dab])
        next
          case va: (Some va)
          have goal_eq: "?thesis \<longleftrightarrow>
            merge_value (Some (merge_value (map_of m k) va)) vb
              = merge_value (map_of m k) (merge_value (Some va) vb)"
            using va vb
            by (simp add: map_of_merge_loop[OF db] map_of_merge_loop[OF da] map_of_merge_loop[OF dab])
          have "merge_value (Some (merge_value (map_of m k) va)) vb
              = merge_value (map_of m k) (merge_value (Some va) vb)"
          proof (cases "is_dict vb")
            case False
            then show ?thesis by (simp add: merge_value_not_dict)
          next
            case True
            then obtain y where y: "vb = PDict y" by (cases vb) auto
            have mem: "(k, va) \<in> set a" using va by (rule map_of_SomeD)
            show ?thesis
            proof (cases "\<exists>x. map_of m k = Some (PDict x)")
              case False
              then have "merge_value (map_of m k) v = v" for v
                by (intro merge_value_base_not_dict) auto
              then show ?thesis by simp
            next
              case True
              then obtain x where x: "map_of m k = Some (PDict x)" by blast
              obtain a' where a': "va = PDict a'" and c: "merge_compatible x a' y"
                using merge_compatible_lookup[OF less.prems(4) mem x] vb y by auto
              have sz: "size (PDict a') < size (PDict a)"
                using va a' size_map_of by blast
              have "wf_val (PDict x)" using x less.prems(1) wf_val_map_of by blast
              moreover have "wf_val (PDict a')"
                using va a' less.prems(2) wf_val_map_of by blast
              moreover have "wf_val (PDict y)"
                using vb y less.prems(3) wf_val_map_of by blast
              ultimately have "merge_loop (merge_loop x a') y = merge_loop x (merge_loop a' y)"
                using less.hyps[OF sz] c by blast
              then show ?thesis using x y a' by simp
            qed
          qed
          then show ?thesis using goal_eq by simp
        qed
      qed
    qed
  qed
qed


lemma wf_val_Nil: "wf_val (PDict [])"
  by simp

lemma wf_val_distinct: "wf_val (PDict d) \<Longrightarrow> distinct (map fst d)"
  by simp

declare wf_val.simps [simp del]

lemma lookups_simps:
  "lookups k [] = []"
  "lookups k (d # ds) = (case map_of d k of None \<Rightarrow> lookups k ds | Some v \<Rightarrow> v # lookups k ds)"
  by (simp_all add: lookups_def map_filter_simps split: option.splits)

lemma chain_append: "chain x (us @ vs) = chain (chain x us) vs"
  by (induction us arbitrary: x) auto

lemma map_of_foldl_merge:
  "(\<And>d. d \<in> set ds \<Longrightarrow> distinct (map fst d)) \<Longrightarrow>
   map_of (foldl merge_loop r ds) k = chain (map_of r k) (lookups k ds)"
proof (induction ds arbitrary: r)
  case Nil
  then show ?case by (simp add: lookups_simps)
next
  case (Cons d ds)
  have dd: "distinct (map fst d)" using Cons.prems by simp
  have "map_of (foldl merge_loop (merge_loop r d) ds) k
        = chain (map_of (merge_loop r d) k) (lookups k ds)"
    using Cons.IH Cons.prems by simp
  then show ?case
    by (simp add: lookups_simps map_of_merge_loop[OF dd] split: option.splits)
qed

lemma keys_merge_loop_subset:
  "distinct (map fst d) \<Longrightarrow> set (map fst d) \<subseteq> set (map fst y) \<Longrightarrow>
   map fst (merge_loop y d) = map fst y"
  by (auto simp: keys_merge_loop filter_empty_conv)

lemma keys_set_merge_loop:
  assumes "distinct (map fst d)"
  shows "fst ` set (merge_loop r d) = fst ` set r \<union> fst ` set d"
proof -
  have "fst ` set (merge_loop r d) = set (map fst (merge_loop r d))" by simp
  also have "\<dots> = set (map fst r @ filter (\<lambda>k. k \<notin> set (map fst r)) (map fst d))"
    by (simp only: keys_merge_loop[OF assms])
  also have "\<dots> = fst ` set r \<union> fst ` set d" by auto
  finally show ?thesis .
qed

lemma keys_set_foldl_merge:
  "(\<And>d. d \<in> set ds \<Longrightarrow> distinct (map fst d)) \<Longrightarrow>
   fst ` set (foldl merge_loop r ds) = fst ` set r \<union> (\<Union>d \<in> set ds. fst ` set d)"
proof (induction ds arbitrary: r)
  case Nil
  then show ?case by simp
next
  case (Cons d ds)
  have dd: "distinct (map fst d)" using Cons.prems by simp
  have "fst ` set (foldl merge_loop (merge_loop r d) ds)
        = fst ` set (merge_loop r d) \<union> (\<Union>d \<in> set ds. fst ` set d)"
    using Cons.prems by (intro Cons.IH) simp
  then show ?case by (simp add: keys_set_merge_loop[OF dd] Un_assoc)
qed

lemma keys_foldl_merge_subset:
  "(\<And>d. d \<in> set ds \<Longrightarrow> distinct (map fst d) \<and> set (map fst d) \<subseteq> set (map fst y)) \<Longrightarrow>
   map fst (foldl merge_loop y ds) = map fst y"
proof (induction ds arbitrary: y)
  case Nil
  then show ?case by simp
next
  case (Cons d ds)
  have k: "map fst (merge_loop y d) = map fst y"
    using Cons.prems by (intro keys_merge_loop_subset) auto
  have "map fst (foldl merge_loop (merge_loop y d) ds) = map fst (merge_loop y d)"
    using Cons.prems k by (intro Cons.IH) auto
  then show ?case using k by simp
qed

lemma wf_foldl_merge:
  "wf_val (PDict r) \<Longrightarrow> (\<And>d. d \<in> set ds \<Longrightarrow> wf_val (PDict d)) \<Longrightarrow>
   wf_val (PDict (foldl merge_loop r ds))"
  by (induction ds arbitrary: r) (simp_all add: wf_merge_loop)

lemma merge_loop_Nil: "distinct (map fst d) \<Longrightarrow> merge_loop [] d = d"
proof (rule alist_ext)
  assume d: "distinct (map fst d)"
  show "distinct (map fst (merge_loop [] d))" using d by (simp add: distinct_merge_loop)
  show "map fst (merge_loop [] d) = map fst d" using d by (simp add: keys_merge_loop)
  show "map_of (merge_loop [] d) = map_of d"
    using d by (auto simp: map_of_merge_loop split: option.splits)
qed

lemma merge_value_dict:
  "distinct (map fst d) \<Longrightarrow> merge_value x (PDict d) = PDict (merge_loop (dict_of x) d)"
  by (cases "(x, PDict d)" rule: merge_value.cases) (auto simp: dict_of_def merge_loop_Nil)

lemma chain_dicts:
  "ds \<noteq> [] \<Longrightarrow> (\<And>d. d \<in> set ds \<Longrightarrow> distinct (map fst d)) \<Longrightarrow>
   chain x (map PDict ds) = Some (PDict (foldl merge_loop (dict_of x) ds))"
proof (induction ds arbitrary: x)
  case Nil
  then show ?case by simp
next
  case (Cons d ds)
  have dd: "distinct (map fst d)" using Cons.prems by simp
  show ?case
  proof (cases "ds = []")
    case True
    then show ?thesis by (simp add: merge_value_dict[OF dd])
  next
    case False
    have "chain (Some (PDict (merge_loop (dict_of x) d))) (map PDict ds)
          = Some (PDict (foldl merge_loop (dict_of (Some (PDict (merge_loop (dict_of x) d)))) ds))"
      using Cons.prems False by (intro Cons.IH) auto
    then show ?thesis by (simp add: merge_value_dict[OF dd] dict_of_def)
  qed
qed

lemma lookups_size:
  "sum_list (map size (lookups k ds)) + length (lookups k ds) \<le> weight ds"
proof (induction ds)
  case Nil
  then show ?case by (simp add: lookups_simps weight_def)
next
  case (Cons d ds)
  show ?case
  proof (cases "map_of d k")
    case None
    then show ?thesis using Cons by (simp add: lookups_simps weight_def)
  next
    case (Some v)
    then have "size v < size (PDict d)" by (rule size_map_of)
    then show ?thesis using Cons Some by (simp add: lookups_simps weight_def)
  qed
qed

lemma lookups_wf:
  "(\<And>d. d \<in> set ds \<Longrightarrow> wf_val (PDict d)) \<Longrightarrow> v \<in> set (lookups k ds) \<Longrightarrow> wf_val v"
proof (induction ds)
  case Nil
  then show ?case by (simp add: lookups_simps)
next
  case (Cons d ds)
  have tl: "\<And>d'. d' \<in> set ds \<Longrightarrow> wf_val (PDict d')"
    using Cons.prems(1) by (simp del: wf_val.simps)
  have hd: "wf_val (PDict d)" using Cons.prems(1) by (simp del: wf_val.simps)
  show ?case
  proof (cases "map_of d k")
    case None
    then have "v \<in> set (lookups k ds)" using Cons.prems(2) by (simp add: lookups_simps)
    then show ?thesis using Cons.IH tl by blast
  next
    case (Some w)
    have ww: "wf_val w" using Some hd by (rule wf_val_map_of[rotated])
    have "v = w \<or> v \<in> set (lookups k ds)"
      using Cons.prems(2) Some by (simp add: lookups_simps)
    then show ?thesis using ww Cons.IH tl by blast
  qed
qed

lemma chain_last_scalar:
  "\<not> is_dict s \<Longrightarrow> chain x (pre @ s # post) = chain (Some s) post"
  by (simp add: chain_append merge_value_not_dict)

lemma foldl_merge_idem:
  "wf_val (PDict r) \<Longrightarrow> (\<And>d. d \<in> set ds \<Longrightarrow> wf_val (PDict d)) \<Longrightarrow>
   foldl merge_loop (foldl merge_loop r ds) ds = foldl merge_loop r ds"
proof (induction "weight ds" arbitrary: r ds rule: less_induct)
  case less
  define y where "y = foldl merge_loop r ds"
  have dds: "\<And>d. d \<in> set ds \<Longrightarrow> distinct (map fst d)"
    using less.prems(2) wf_val_distinct by blast
  have wy: "wf_val (PDict y)" unfolding y_def using less.prems by (rule wf_foldl_merge)
  have value_idem: "chain (chain x vs) vs = chain x vs"
    if vs: "vs = lookups k ds" and wx: "\<And>b. x = Some (PDict b) \<Longrightarrow> wf_val (PDict b)" for x vs k
  proof (cases "\<exists>s \<in> set vs. \<not> is_dict s")
    case True
    then obtain pre s post where "vs = pre @ s # post" "\<not> is_dict s"
      using split_list_last_prop[of vs "\<lambda>s. \<not> is_dict s"] by blast
    then show ?thesis by (simp add: chain_last_scalar)
  next
    case False
    show ?thesis
    proof (cases "vs = []")
      case True
      then show ?thesis by simp
    next
      case ne: False
      define es where "es = map (\<lambda>v. case v of PDict d \<Rightarrow> d | _ \<Rightarrow> []) vs"
      have "\<And>v. v \<in> set vs \<Longrightarrow> PDict (case v of PDict d \<Rightarrow> d | _ \<Rightarrow> []) = v"
        using False by (auto split: pyval.splits)
      then have vs_es: "vs = map PDict es" unfolding es_def by (induction vs) auto
      have es_ne: "es \<noteq> []" using ne vs_es by auto
      have wes: "wf_val (PDict e)" if "e \<in> set es" for e
      proof -
        have "PDict e \<in> set vs" using that vs_es by auto
        then show ?thesis using lookups_wf[of ds "PDict e" k] less.prems(2) vs by blast
      qed
      have des: "\<And>e. e \<in> set es \<Longrightarrow> distinct (map fst e)"
        using wes wf_val_distinct by blast
      have "weight es + length vs = sum_list (map size vs) + length vs"
        unfolding weight_def vs_es by (simp add: comp_def)
      moreover have "0 < length vs" using ne by simp
      moreover have "sum_list (map size vs) + length vs \<le> weight ds"
        using lookups_size[of k ds] vs by simp
      ultimately have "weight es < weight ds" by linarith
      have "wf_val (PDict (dict_of x))"
        using wx by (auto simp: dict_of_def wf_val_Nil split: option.splits pyval.splits)
      with \<open>weight es < weight ds\<close> have idem: "foldl merge_loop (foldl merge_loop (dict_of x) es) es
                       = foldl merge_loop (dict_of x) es"
        using less.hyps wes by blast
      have c1: "chain x' (map PDict es) = Some (PDict (foldl merge_loop (dict_of x') es))" for x'
        using chain_dicts[OF es_ne] des by blast
      show ?thesis
        unfolding vs_es c1 using idem by (simp add: dict_of_def)
    qed
  qed
  have "foldl merge_loop y ds = y"
  proof (rule alist_ext)
    have sub: "\<And>d. d \<in> set ds \<Longrightarrow> set (map fst d) \<subseteq> set (map fst y)"
      unfolding y_def using keys_set_foldl_merge[OF dds, of ds r] by auto
    show keys: "map fst (foldl merge_loop y ds) = map fst y"
      using dds sub by (intro keys_foldl_merge_subset) auto
    show "distinct (map fst (foldl merge_loop y ds))" using keys wf_val_distinct[OF wy] by simp
    show "map_of (foldl merge_loop y ds) = map_of y"
    proof
      fix k
      have "\<And>b. map_of r k = Some (PDict b) \<Longrightarrow> wf_val (PDict b)"
        using less.prems(1) wf_val_map_of by blast
      then have "chain (chain (map_of r k) (lookups k ds)) (lookups k ds)
                 = chain (map_of r k) (lookups k ds)"
        by (intro value_idem) auto
      then show "map_of (foldl merge_loop y ds) k = map_of y k"
        by (simp add: map_of_foldl_merge[OF dds] y_def)
    qed
  qed
  then show ?case by (simp add: y_def)
qed

section \<open>Properties of the metadata override merger\<close>

lemma deep_merge_dict: "deep_merge (PDict b) ov = merge_loop b ov"
  by (simp add: deep_merge_def)

lemma apply_loop_eq:
  "apply_loop rel nm m rules =
     (if all_str rules then Inr (foldl merge_loop m (applicable rel nm rules)) else Inl TypeError)"
proof (induction rules arbitrary: m)
  case Nil
  then show ?case by (simp add: all_str_def applicable_def)
next
  case (Cons r rules)
  obtain p v where r: "r = (p, v)" by (cases r)
  show ?case
  proof (cases "\<exists>pat. p = PStr pat")
    case True
    then obtain pat where p: "p = PStr pat" by blast
    show ?thesis
      using Cons.IH by (simp add: r p all_str_def applicable_def deep_merge_dict)
  next
    case False
    then show ?thesis by (cases p) (simp_all add: r all_str_def)
  qed
qed

lemma wf_val_dget: "wf_val (PDict d) \<Longrightarrow> wf_val (dget d k)"
  by (auto simp: dget_def wf_val.simps split: option.splits dest: wf_val_map_of)

lemma wf_val_por: "wf_val a \<Longrightarrow> wf_val b \<Longrightarrow> wf_val (por a b)"
  by (simp add: por_def)

lemma wf_val_filter: "wf_val (PDict d) \<Longrightarrow> wf_val (PDict (filter P d))"
  by (auto simp: wf_val.simps distinct_map_filter)

lemma iter_item_wf:
  assumes "wf_val item" and "(p, v) \<in> set (iter_item item)"
  shows "wf_val (PDict v)"
proof (cases item)
  case (PDict it)
  have w: "wf_val (PDict it)" using assms(1) PDict by simp
  let ?vals = "por (dget it ''values'') (dget it ''merge'')"
  let ?vals' = "if \<not> truthy ?vals
     then PDict (filter (\<lambda>(k, v). k \<notin> {''pattern'', ''file'', ''match''}) it) else ?vals"
  have "wf_val ?vals" by (intro wf_val_por wf_val_dget w)
  then have "wf_val ?vals'" using wf_val_filter[OF w] by simp
  moreover have "?vals' = PDict v"
    using assms(2) PDict by (auto simp: iter_item_def Let_def split: pyval.splits if_splits)
  ultimately show ?thesis by simp
qed (use assms(2) in \<open>simp_all add: iter_item_def\<close>)

lemma iter_metadata_overrides_wf:
  assumes "wf_val (metadata_overrides cfg)" and "wf_val (metadata cfg)"
    and "(p, v) \<in> set (iter_metadata_overrides cfg)"
  shows "wf_val (PDict v)"
proof -
  let ?md = "por (metadata_overrides cfg) (metadata cfg)"
  have w: "wf_val ?md" using assms(1,2) by (rule wf_val_por)
  show ?thesis
  proof (cases ?md)
    case (PDict d)
    then have "(p, v) \<in> set (concat (map (\<lambda>(pat, vals). case vals of PDict vs \<Rightarrow> [(PStr pat, vs)] | _ \<Rightarrow> []) d))"
      using assms(3) by (simp add: iter_metadata_overrides_def Let_def split: if_splits)
    then obtain k where "(k, PDict v) \<in> set d"
      by (auto split: pyval.splits)
    moreover have "\<forall>kv \<in> set d. wf_val (snd kv)" using w PDict by (simp add: wf_val.simps)
    ultimately show ?thesis by fastforce
  next
    case (PList items)
    then have "(p, v) \<in> set (concat (map iter_item items))"
      using assms(3) by (simp add: iter_metadata_overrides_def Let_def split: if_splits)
    then obtain item where "item \<in> set items" "(p, v) \<in> set (iter_item item)" by auto
    moreover have "wf_val item" using w PList \<open>item \<in> set items\<close> by (simp add: wf_val.simps)
    ultimately show ?thesis using iter_item_wf by blast
  qed (use assms(3) in \<open>auto simp: iter_metadata_overrides_def Let_def split: if_splits\<close>)
qed

lemma applicable_subset: "d \<in> set (applicable rel nm rules) \<Longrightarrow> \<exists>p. (p, d) \<in> set rules"
  by (auto simp: applicable_def split: pyval.splits if_splits)

text \<open>
  C3.  Merging rule \<open>A\<close> and then rule \<open>B\<close> into the base metadata \<open>m\<close> gives the same
  mapping as merging the single patch \<open>_deep_merge(A, B)\<close> into \<open>m\<close>, provided that \<open>A\<close>
  holds no value that is not a mapping at a key where \<open>m\<close> and \<open>B\<close> both hold a mapping
  (\<open>merge_compatible\<close>).  The mappings are Python dictionaries (\<open>wf_val\<close>).
\<close>

theorem deep_merge_sequential_eq_merged_patch:
  assumes "wf_val (PDict m)" and "wf_val (PDict A)" and "wf_val (PDict B)"
    and "merge_compatible m A B"
  shows "deep_merge (PDict (deep_merge (PDict m) A)) B
         = deep_merge (PDict m) (deep_merge (PDict A) B)"
  using merge_loop_assoc[OF assms] by (simp add: deep_merge_dict)

theorem deep_merge_sequential_eq_merged_patch_witness:
  "wf_val (PDict [(''k'', PDict [(''p'', PInt 1)]), (''t'', PStr ''a'')])
   \<and> wf_val (PDict [(''k'', PDict [(''p'', PInt 2), (''r'', PInt 3)]), (''t'', PInt 7)])
   \<and> wf_val (PDict [(''k'', PDict [(''q'', PInt 2)]), (''u'', PList [])])
   \<and> merge_compatible [(''k'', PDict [(''p'', PInt 1)]), (''t'', PStr ''a'')]
        [(''k'', PDict [(''p'', PInt 2), (''r'', PInt 3)]), (''t'', PInt 7)]
        [(''k'', PDict [(''q'', PInt 2)]), (''u'', PList [])]
   \<and> deep_merge (PDict (deep_merge (PDict [(''k'', PDict [(''p'', PInt 1)]), (''t'', PStr ''a'')])
        [(''k'', PDict [(''p'', PInt 2), (''r'', PInt 3)]), (''t'', PInt 7)]))
        [(''k'', PDict [(''q'', PInt 2)]), (''u'', PList [])]
     = deep_merge (PDict [(''k'', PDict [(''p'', PInt 1)]), (''t'', PStr ''a'')])
        (deep_merge (PDict [(''k'', PDict [(''p'', PInt 2), (''r'', PInt 3)]), (''t'', PInt 7)])
           [(''k'', PDict [(''q'', PInt 2)]), (''u'', PList [])])"
  using deep_merge_sequential_eq_merged_patch
    [of "[(''k'', PDict [(''p'', PInt 1)]), (''t'', PStr ''a'')]"
        "[(''k'', PDict [(''p'', PInt 2), (''r'', PInt 3)]), (''t'', PInt 7)]"
        "[(''k'', PDict [(''q'', PInt 2)]), (''u'', PList [])]"]
  by (simp add: wf_val.simps)

theorem deep_merge_sequential_counterexample:
  "deep_merge (PDict (deep_merge (PDict [(''k'', PDict [(''p'', PInt 1)])]) [(''k'', PInt 5)]))
        [(''k'', PDict [(''q'', PInt 2)])]
     = [(''k'', PDict [(''q'', PInt 2)])]
   \<and> deep_merge (PDict [(''k'', PDict [(''p'', PInt 1)])])
        (deep_merge (PDict [(''k'', PInt 5)]) [(''k'', PDict [(''q'', PInt 2)])])
     = [(''k'', PDict [(''p'', PInt 1), (''q'', PInt 2)])]
   \<and> deep_merge (PDict (deep_merge (PDict [(''k'', PDict [(''p'', PInt 1)])]) [(''k'', PInt 5)]))
        [(''k'', PDict [(''q'', PInt 2)])]
     \<noteq> deep_merge (PDict [(''k'', PDict [(''p'', PInt 1)])])
        (deep_merge (PDict [(''k'', PInt 5)]) [(''k'', PDict [(''q'', PInt 2)])])"
  by (simp add: deep_merge_def)

text \<open>
  C4.  Applying the override rules of a configuration to the metadata they produced
  changes nothing: if \<open>apply_metadata_overrides\<close> returns \<open>y\<close> for a file, then applied to
  \<open>y\<close> for the same file and configuration it returns \<open>y\<close> again.
\<close>

theorem apply_metadata_overrides_idempotent:
  assumes "wf_val meta" and "wf_val (metadata_overrides cfg)" and "wf_val (metadata cfg)"
    and "apply_metadata_overrides fp meta cfg = Inr y"
  shows "apply_metadata_overrides fp (PDict y) cfg = Inr y"
proof -
  let ?rules = "iter_metadata_overrides cfg"
  let ?ds = "applicable (rel_path fp) (path_name (as_posix fp)) ?rules"
  obtain m where m: "(if truthy meta then meta else PDict []) = PDict m"
    using assms(4) by (auto simp: apply_metadata_overrides_def split: pyval.splits)
  have wm: "wf_val (PDict m)"
    using assms(1) m by (auto simp: wf_val_Nil split: if_splits)
  have run: "apply_loop (rel_path fp) (path_name (as_posix fp)) m ?rules = Inr y"
    using assms(4) m by (simp add: apply_metadata_overrides_def)
  then have strs: "all_str ?rules" and y: "y = foldl merge_loop m ?ds"
    by (auto simp: apply_loop_eq split: if_splits)
  have wds: "wf_val (PDict d)" if "d \<in> set ?ds" for d
    using that applicable_subset iter_metadata_overrides_wf[OF assms(2,3)] by blast
  have "foldl merge_loop y ?ds = y"
    unfolding y using wm wds by (rule foldl_merge_idem)
  then have "apply_loop (rel_path fp) (path_name (as_posix fp)) y ?rules = Inr y"
    using strs by (simp add: apply_loop_eq)
  moreover have "(if truthy (PDict y) then PDict y else PDict []) = PDict y" by simp
  ultimately show ?thesis by (simp add: apply_metadata_overrides_def del: truthy.simps)
qed

lemmas overrides_eval =
  apply_metadata_overrides_def iter_metadata_overrides_def iter_item_def por_def dget_def
  rel_path_def path_name_def rule_applies_def deep_merge_def Let_def class_split_def
  class_match_def

theorem apply_metadata_overrides_idempotent_witness:
  "wf_val (PDict [(''title'', PStr ''Intro''), (''opts'', PDict [(''a'', PInt 1)])])
   \<and> wf_val (metadata_overrides two_rule_config)
   \<and> wf_val (metadata two_rule_config)
   \<and> apply_metadata_overrides intro1
        (PDict [(''title'', PStr ''Intro''), (''opts'', PDict [(''a'', PInt 1)])]) two_rule_config
      = Inr [(''title'', PStr ''Intro''), (''opts'', PDict [(''a'', PInt 1), (''b'', PInt 2)]),
             (''order'', PInt 3)]
   \<and> apply_metadata_overrides intro1
        (PDict [(''title'', PStr ''Intro''), (''opts'', PDict [(''a'', PInt 1), (''b'', PInt 2)]),
                (''order'', PInt 3)]) two_rule_config
      = Inr [(''title'', PStr ''Intro''), (''opts'', PDict [(''a'', PInt 1), (''b'', PInt 2)]),
             (''order'', PInt 3)]"
proof -
  have w1: "wf_val (PDict [(''title'', PStr ''Intro''), (''opts'', PDict [(''a'', PInt 1)])])"
    by (simp add: wf_val.simps)
  have w2: "wf_val (metadata_overrides two_rule_config)"
    by (simp add: two_rule_config_def empty_config_def wf_val.simps)
  have w3: "wf_val (metadata two_rule_config)"
    by (simp add: two_rule_config_def empty_config_def wf_val.simps)
  have run: "apply_metadata_overrides intro1
        (PDict [(''title'', PStr ''Intro''), (''opts'', PDict [(''a'', PInt 1)])]) two_rule_config
      = Inr [(''title'', PStr ''Intro''), (''opts'', PDict [(''a'', PInt 1), (''b'', PInt 2)]),
             (''order'', PInt 3)]"
    by (simp add: overrides_eval two_rule_config_def empty_config_def intro1_def)
  show ?thesis
    using w1 w2 w3 run apply_metadata_overrides_idempotent[OF w1 w2 w3 run] by simp
qed

text \<open>
  C5.  A rule applies to a file exactly when its pattern matches, as a shell glob, the
  file's path relative to the working directory or the file's bare name: the overrides
  that \<open>apply_metadata_overrides\<close> merges are those of the rules whose pattern passes
  this test, in declaration order.  The pattern \<open>section1/*.ipynb\<close> matches
  \<open>section1/intro.ipynb\<close> and matches neither \<open>section2/intro.ipynb\<close> nor its bare name,
  so the rule changes the metadata of the first file and not of the second.
\<close>

theorem override_rule_applies_iff_glob_matches:
  "apply_loop rel nm m (map (\<lambda>(pat, v). (PStr pat, v)) rules)
     = Inr (foldl (\<lambda>acc v. deep_merge (PDict acc) v) m
              (map snd (filter (\<lambda>(pat, v). fnmatch rel pat \<or> fnmatch nm pat) rules)))
   \<and> (rule_applies (rel_path fp) (path_name (as_posix fp)) pat
        \<longleftrightarrow> fnmatch (rel_path fp) pat \<or> fnmatch (path_name (as_posix fp)) pat)
   \<and> rule_applies (rel_path intro1) (path_name (as_posix intro1)) ''section1/*.ipynb''
   \<and> \<not> rule_applies (rel_path intro2) (path_name (as_posix intro2)) ''section1/*.ipynb''
   \<and> apply_metadata_overrides intro1 (PDict []) one_rule_config = Inr [(''title'', PStr ''Intro'')]
   \<and> apply_metadata_overrides intro2 (PDict []) one_rule_config = Inr []"
proof -
  have a: "apply_loop rel nm m (map (\<lambda>(pat, v). (PStr pat, v)) rules)
     = Inr (foldl (\<lambda>acc v. deep_merge (PDict acc) v) m
              (map snd (filter (\<lambda>(pat, v). fnmatch rel pat \<or> fnmatch nm pat) rules)))"
  proof (induction rules arbitrary: m)
    case Nil
    show ?case by simp
  next
    case (Cons r rules)
    obtain pat v where r: "r = (pat, v)" by (cases r)
    show ?case
      by (cases "fnmatch rel pat \<or> fnmatch nm pat")
         (simp_all add: r rule_applies_def Cons.IH)
  qed
  have b: "rule_applies (rel_path fp) (path_name (as_posix fp)) pat
     \<longleftrightarrow> fnmatch (rel_path fp) pat \<or> fnmatch (path_name (as_posix fp)) pat"
    by (simp add: rule_applies_def)
  have c: "rule_applies (rel_path intro1) (path_name (as_posix intro1)) ''section1/*.ipynb''"
    by (simp add: rule_applies_def rel_path_def path_name_def intro1_def)
  have d: "\<not> rule_applies (rel_path intro2) (path_name (as_posix intro2)) ''section1/*.ipynb''"
    by (simp add: rule_applies_def rel_path_def path_name_def intro2_def)
  have e: "apply_metadata_overrides intro1 (PDict []) one_rule_config = Inr [(''title'', PStr ''Intro'')]"
    by (simp add: overrides_eval one_rule_config_def empty_config_def intro1_def)
  have f: "apply_metadata_overrides intro2 (PDict []) one_rule_config = Inr []"
    by (simp add: overrides_eval one_rule_config_def empty_config_def intro2_def)
  from a b c d e f show ?thesis by blast
qed

section \<open>Properties of the table of contents\<close>




















section \<open>Properties of the index ordering\<close>






lemma bind_err_Inr: "bind_err m f = Inr y \<Longrightarrow> \<exists>x. m = Inr x \<and> f x = Inr y"
  by (cases m) (simp_all add: bind_err_def)

lemma bind_err_simps [simp]:
  "bind_err (Inl e) f = Inl e" "bind_err (Inr x) f = f x"
  by (simp_all add: bind_err_def)





section \<open>Properties of notebook processing\<close>





lemma process_notebook_cases:
  assumes "process_notebook e fp nb cfg = Inr res"
  shows "\<exists>meta. apply_metadata_overrides fp (get_notebook_metadata nb) cfg = Inr meta
           \<and> (if meta = [] then res = None
               else \<exists>md ex setup slide.
                      set_kernel (nb_metadata nb) = Inr md
                    \<and> exercise_cells (cells nb) = Inr ex
                    \<and> notebook_setup (path_stem (as_posix fp)) (path_name (path_parent (as_posix fp)))
                         meta cfg = Inr setup
                    \<and> slide_cells e (path_parent (as_posix fp)) (dget meta ''slides'') = Inr slide
                    \<and> res = Some \<lparr>exercise_nb_cells = setup @ slide @ ex,
                          complete_nb_cells = setup @ slide @ cells nb,
                          out_metadata = AList.update ''workshop'' (PDict meta) md,
                          info = notebook_info (path_stem (as_posix fp))
                                   (path_name (path_parent (as_posix fp))) meta\<rparr>)"
proof -
  from assms obtain meta where
    meta: "apply_metadata_overrides fp (get_notebook_metadata nb) cfg = Inr meta"
    by (auto simp: process_notebook_def dest!: bind_err_Inr)
  show ?thesis
  proof (cases "meta = []")
    case True
    then show ?thesis using assms meta by (simp add: process_notebook_def)
  next
    case False
    then show ?thesis
      using assms meta
      by (simp add: process_notebook_def Let_def) (auto dest!: bind_err_Inr)
  qed
qed





section \<open>Properties of the exercise variant\<close>

lemma has_solution_tag_cleared:
  "has_solution_tag (AList.update ''execution_count'' v (AList.update ''outputs'' w c))
   = has_solution_tag c"
  by (simp add: has_solution_tag_def update_conv')

lemma exercise_cell_tagged:
  assumes "exercise_cell c = Inr c'" and "has_solution_tag c = Inr True"
  shows "c' = empty_code_cell"
proof -
  from assms(1) obtain t where t: "map_of c ''cell_type'' = Some t"
    by (auto simp: exercise_cell_def split: option.splits)
  show ?thesis
    using assms t
    by (cases "t = PStr ''code''")
       (simp_all add: exercise_cell_def Let_def has_solution_tag_cleared)
qed

lemma empty_code_cell_cleared:
  "map_of empty_code_cell ''outputs'' = Some (PList [])"
  "map_of empty_code_cell ''execution_count'' = Some PNone"
  by (simp_all add: empty_code_cell_def)

lemma code_cell_cleared:
  "map_of (code_cell src) ''outputs'' = Some (PList [])"
  "map_of (code_cell src) ''execution_count'' = Some PNone"
  by (simp_all add: code_cell_def)

lemma exercise_cell_code_cleared:
  assumes "exercise_cell c = Inr c'" and "map_of c' ''cell_type'' = Some (PStr ''code'')"
  shows "map_of c' ''outputs'' = Some (PList []) \<and> map_of c' ''execution_count'' = Some PNone"
proof -
  from assms(1) obtain t where t: "map_of c ''cell_type'' = Some t"
    by (auto simp: exercise_cell_def split: option.splits)
  let ?cleared = "if t = PStr ''code''
                  then AList.update ''execution_count'' PNone (AList.update ''outputs'' (PList []) c)
                  else c"
  from assms(1) t obtain tagged where c': "c' = (if tagged then empty_code_cell else ?cleared)"
    by (auto simp: exercise_cell_def Let_def split: sum.splits)
  show ?thesis
  proof (cases tagged)
    case True
    then show ?thesis using c' by (simp add: empty_code_cell_cleared)
  next
    case False
    then have eq: "c' = ?cleared" using c' by simp
    show ?thesis
    proof (cases "t = PStr ''code''")
      case True
      then show ?thesis using eq by (simp add: update_conv')
    next
      case False
      then have "map_of c' ''cell_type'' = Some t" using eq t by simp
      then show ?thesis using assms(2) False by simp
    qed
  qed
qed

lemma exercise_cells_nth:
  "exercise_cells cs = Inr ex \<Longrightarrow>
   length ex = length cs \<and> (\<forall>i < length cs. exercise_cell (cs ! i) = Inr (ex ! i))"
proof (induction cs arbitrary: ex)
  case Nil
  then show ?case by simp
next
  case (Cons c cs)
  from Cons.prems obtain c' ex' where c': "exercise_cell c = Inr c'"
    and ex': "exercise_cells cs = Inr ex'" and ex: "ex = c' # ex'"
    by (auto split: sum.splits)
  from Cons.IH[OF ex'] have len: "length ex' = length cs"
    and nth: "\<forall>i < length cs. exercise_cell (cs ! i) = Inr (ex' ! i)" by auto
  have "exercise_cell ((c # cs) ! i) = Inr (ex ! i)" if "i < length (c # cs)" for i
    using that c' nth ex by (cases i) auto
  then show ?case using len ex by simp
qed

lemma install_cells_cleared:
  "install_cells ip = Inr cs \<Longrightarrow> c \<in> set cs \<Longrightarrow>
   map_of c ''outputs'' = Some (PList []) \<and> map_of c ''execution_count'' = Some PNone"
  by (auto simp: install_cells_def Let_def code_cell_cleared split: if_splits sum.splits)

lemma download_cells_cleared:
  "c \<in> set (download_cells z cfg sf) \<Longrightarrow>
   map_of c ''outputs'' = Some (PList []) \<and> map_of c ''execution_count'' = Some PNone"
  by (auto simp: download_cells_def Let_def code_cell_cleared split: option.splits if_splits)

lemma notebook_setup_cleared:
  assumes "notebook_setup b d meta cfg = Inr cs" and "c \<in> set cs"
  shows "map_of c ''outputs'' = Some (PList []) \<and> map_of c ''execution_count'' = Some PNone"
proof (cases "setup_needed meta")
  case True
  then obtain ic z ip where "install_cells ip = Inr ic" "cs = ic @ download_cells z cfg d"
    using assms(1)
    by (auto simp: notebook_setup_def create_setup_cells_def split: sum.splits)
  then show ?thesis using assms(2) install_cells_cleared download_cells_cleared by auto
next
  case False
  then show ?thesis using assms by (simp add: notebook_setup_def)
qed

lemma notebook_setup_not_needed: "\<not> setup_needed meta \<Longrightarrow> notebook_setup b d meta cfg = Inr []"
  by (simp add: notebook_setup_def)

lemma slide_cells_markdown:
  "slide_cells e dir sl = Inr cs \<Longrightarrow> c \<in> set cs \<Longrightarrow> map_of c ''cell_type'' = Some (PStr ''markdown'')"
  by (auto simp: slide_cells_def slide_link_cell_def split: if_splits pyval.splits)

lemma slide_cells_none: "\<not> truthy sl \<Longrightarrow> slide_cells e dir sl = Inr []"
  by (simp add: slide_cells_def)

section \<open>The exercise and the answers variant\<close>

text \<open>
  C2.  When \<open>process_notebook\<close> produces the two variants of a notebook, both start with
  the same cells \<open>pre\<close> (the setup cells and the slide link, none when the merged metadata
  declares no data files, no install list and no slides), followed by one cell for each
  cell of the notebook, in order.  After \<open>pre\<close>, the answers variant holds the cells of
  the notebook unchanged, and the exercise variant holds the empty code cell at the
  position of every cell tagged \<open>solution\<close>.  Every code cell of the exercise variant has
  empty outputs and a null execution count.
\<close>

theorem exercise_variant_replaces_solutions:
  assumes "process_notebook e fp nb cfg = Inr (Some r)"
  shows "\<exists>meta pre.
           apply_metadata_overrides fp (get_notebook_metadata nb) cfg = Inr meta
         \<and> length (exercise_nb_cells r) = length pre + length (cells nb)
         \<and> take (length pre) (exercise_nb_cells r) = pre
         \<and> complete_nb_cells r = pre @ cells nb
         \<and> (\<forall>i < length (cells nb). has_solution_tag (cells nb ! i) = Inr True \<longrightarrow>
               exercise_nb_cells r ! (length pre + i) = empty_code_cell
             \<and> complete_nb_cells r ! (length pre + i) = cells nb ! i)
         \<and> (\<forall>c \<in> set (exercise_nb_cells r). map_of c ''cell_type'' = Some (PStr ''code'') \<longrightarrow>
               map_of c ''outputs'' = Some (PList []) \<and> map_of c ''execution_count'' = Some PNone)
         \<and> (\<not> setup_needed meta \<and> \<not> truthy (dget meta ''slides'') \<longrightarrow> pre = [])"
proof -
  let ?b = "path_stem (as_posix fp)" and ?dir = "path_parent (as_posix fp)"
  from process_notebook_cases[OF assms] obtain meta md ex pre_setup slide where
    meta: "apply_metadata_overrides fp (get_notebook_metadata nb) cfg = Inr meta"
    and ex: "exercise_cells (cells nb) = Inr ex"
    and stp: "notebook_setup ?b (path_name ?dir) meta cfg = Inr pre_setup"
    and slide: "slide_cells e ?dir (dget meta ''slides'') = Inr slide"
    and r: "r = \<lparr>exercise_nb_cells = pre_setup @ slide @ ex,
                complete_nb_cells = pre_setup @ slide @ cells nb,
                out_metadata = AList.update ''workshop'' (PDict meta) md,
                info = notebook_info ?b (path_name ?dir) meta\<rparr>"
    by (auto split: if_splits)
  let ?pre = "pre_setup @ slide"
  from exercise_cells_nth[OF ex] have len: "length ex = length (cells nb)"
    and nth: "\<forall>i < length (cells nb). exercise_cell (cells nb ! i) = Inr (ex ! i)" by auto
  have e_cells: "exercise_nb_cells r = ?pre @ ex" and c_cells: "complete_nb_cells r = ?pre @ cells nb"
    using r by simp_all
  have p1: "length (exercise_nb_cells r) = length ?pre + length (cells nb)"
    using e_cells len by simp
  have p2: "take (length ?pre) (exercise_nb_cells r) = ?pre" using e_cells by simp
  have p3: "\<forall>i < length (cells nb). has_solution_tag (cells nb ! i) = Inr True \<longrightarrow>
               exercise_nb_cells r ! (length ?pre + i) = empty_code_cell
             \<and> complete_nb_cells r ! (length ?pre + i) = cells nb ! i"
  proof (intro allI impI)
    fix i
    assume i: "i < length (cells nb)" and tag: "has_solution_tag (cells nb ! i) = Inr True"
    have "exercise_cell (cells nb ! i) = Inr (ex ! i)" using nth i by blast
    then have "ex ! i = empty_code_cell" using tag by (rule exercise_cell_tagged)
    moreover have "exercise_nb_cells r ! (length ?pre + i) = ex ! i"
      unfolding e_cells by (simp only: nth_append_length_plus)
    moreover have "complete_nb_cells r ! (length ?pre + i) = cells nb ! i"
      unfolding c_cells by (simp only: nth_append_length_plus)
    ultimately show "exercise_nb_cells r ! (length ?pre + i) = empty_code_cell
             \<and> complete_nb_cells r ! (length ?pre + i) = cells nb ! i" by simp
  qed
  have p4: "\<forall>c \<in> set (exercise_nb_cells r). map_of c ''cell_type'' = Some (PStr ''code'') \<longrightarrow>
               map_of c ''outputs'' = Some (PList []) \<and> map_of c ''execution_count'' = Some PNone"
  proof (intro ballI impI)
    fix c
    assume c: "c \<in> set (exercise_nb_cells r)" and code: "map_of c ''cell_type'' = Some (PStr ''code'')"
    from c e_cells consider "c \<in> set pre_setup" | "c \<in> set slide" | "c \<in> set ex" by auto
    then show "map_of c ''outputs'' = Some (PList []) \<and> map_of c ''execution_count'' = Some PNone"
    proof cases
      case 1
      then show ?thesis using stp notebook_setup_cleared by blast
    next
      case 2
      then have "map_of c ''cell_type'' = Some (PStr ''markdown'')"
        using slide slide_cells_markdown by blast
      then show ?thesis using code by simp
    next
      case 3
      then obtain i where "i < length ex" "c = ex ! i" by (auto simp: in_set_conv_nth)
      then have "exercise_cell (cells nb ! i) = Inr c" using nth len by simp
      then show ?thesis using code by (rule exercise_cell_code_cleared)
    qed
  qed
  have p5: "\<not> setup_needed meta \<and> \<not> truthy (dget meta ''slides'') \<longrightarrow> ?pre = []"
    using stp slide by (auto simp: notebook_setup_not_needed slide_cells_none)
  from meta p1 p2 c_cells p3 p4 p5 show ?thesis by blast
qed

lemma solved_notebook_result:
  "process_notebook quiet_env intro1 solved_notebook empty_config = Inr (Some solved_result)"
  by code_simp

theorem exercise_variant_replaces_solutions_witness:
  "process_notebook quiet_env intro1 solved_notebook empty_config = Inr (Some solved_result)
   \<and> (\<exists>meta pre.
           apply_metadata_overrides intro1 (get_notebook_metadata solved_notebook) empty_config = Inr meta
         \<and> length (exercise_nb_cells solved_result) = length pre + length (cells solved_notebook)
         \<and> take (length pre) (exercise_nb_cells solved_result) = pre
         \<and> complete_nb_cells solved_result = pre @ cells solved_notebook
         \<and> (\<forall>i < length (cells solved_notebook).
               has_solution_tag (cells solved_notebook ! i) = Inr True \<longrightarrow>
               exercise_nb_cells solved_result ! (length pre + i) = empty_code_cell
             \<and> complete_nb_cells solved_result ! (length pre + i) = cells solved_notebook ! i)
         \<and> (\<forall>c \<in> set (exercise_nb_cells solved_result).
               map_of c ''cell_type'' = Some (PStr ''code'') \<longrightarrow>
               map_of c ''outputs'' = Some (PList []) \<and> map_of c ''execution_count'' = Some PNone)
         \<and> (\<not> setup_needed meta \<and> \<not> truthy (dget meta ''slides'') \<longrightarrow> pre = []))"
  using solved_notebook_result exercise_variant_replaces_solutions[OF solved_notebook_result]
  by blast

theorem exercise_variant_position_counterexample:
  "has_solution_tag (cells solved_notebook ! 0) = Inr True
   \<and> process_notebook quiet_env intro1 solved_notebook empty_config = Inr (Some solved_result)
   \<and> exercise_nb_cells solved_result ! 0 = install_pandas_cell
   \<and> exercise_nb_cells solved_result ! 0 \<noteq> empty_code_cell
   \<and> complete_nb_cells solved_result ! 0 \<noteq> cells solved_notebook ! 0"
proof -
  have a: "has_solution_tag (cells solved_notebook ! 0) = Inr True" by code_simp
  have b: "exercise_nb_cells solved_result ! 0 = install_pandas_cell"
    by (simp add: solved_result_def)
  have c: "install_pandas_cell \<noteq> empty_code_cell"
    by (simp add: install_pandas_cell_def code_cell_def empty_code_cell_def)
  have d: "complete_nb_cells solved_result ! 0 \<noteq> cells solved_notebook ! 0"
    by (simp add: solved_result_def solved_notebook_def install_pandas_cell_def code_cell_def
        solution_cell_def)
  from a b c d solved_notebook_result show ?thesis by simp
qed

section \<open>Exceptions end the run\<close>

text \<open>
  Every exception of the model ends the process with a status other than zero: the only
  \<open>SystemExit\<close> raised is \<open>sys.exit(1)\<close>, and an exception that is not caught gives status 1.
\<close>

lemma exit_status_nonzero: "exit_status err \<noteq> 0 \<longleftrightarrow> err \<noteq> SystemExit 0"
  by (cases err) auto

lemma bind_err_Inl: "bind_err m f = Inl err \<longleftrightarrow> m = Inl err \<or> (\<exists>x. m = Inr x \<and> f x = Inl err)"
  by (cases m) (auto simp: bind_err_def)

lemma apply_loop_no_exit0: "apply_loop rel nm merged rules \<noteq> Inl (SystemExit 0)"
  by (induction rules arbitrary: merged) (auto split: pyval.splits)

lemma apply_metadata_overrides_no_exit0: "apply_metadata_overrides fp meta cfg \<noteq> Inl (SystemExit 0)"
  by (auto simp: apply_metadata_overrides_def apply_loop_no_exit0 split: pyval.splits)

lemma set_kernel_no_exit0: "set_kernel md \<noteq> Inl (SystemExit 0)"
  by (auto simp: set_kernel_def Let_def split: option.splits pyval.splits)

lemma has_solution_tag_no_exit0: "has_solution_tag c \<noteq> Inl (SystemExit 0)"
  by (auto simp: has_solution_tag_def Let_def split: option.splits pyval.splits)

lemma exercise_cell_no_exit0: "exercise_cell c \<noteq> Inl (SystemExit 0)"
  using has_solution_tag_no_exit0
  by (auto simp: exercise_cell_def Let_def split: option.splits sum.splits)

lemma exercise_cells_no_exit0: "exercise_cells cs \<noteq> Inl (SystemExit 0)"
  using exercise_cell_no_exit0 by (induction cs) (auto split: sum.splits)

lemma install_lines_no_exit0: "install_lines ps \<noteq> Inl (SystemExit 0)"
  by (induction ps) (auto split: sum.splits pyval.splits)

lemma install_cells_no_exit0: "install_cells p \<noteq> Inl (SystemExit 0)"
  using install_lines_no_exit0
  by (auto simp: install_cells_def Let_def split: sum.splits pyval.splits)

lemma notebook_setup_no_exit0: "notebook_setup b d meta cfg \<noteq> Inl (SystemExit 0)"
  using install_cells_no_exit0
  by (auto simp: notebook_setup_def create_setup_cells_def split: sum.splits)

lemma slide_cells_no_exit0: "slide_cells e dir v \<noteq> Inl (SystemExit 0)"
  by (auto simp: slide_cells_def split: pyval.splits)

lemma process_notebook_no_exit0: "process_notebook e fp nb cfg \<noteq> Inl (SystemExit 0)"
  by (auto simp: process_notebook_def Let_def bind_err_Inl apply_metadata_overrides_no_exit0
      set_kernel_no_exit0 exercise_cells_no_exit0 notebook_setup_no_exit0 slide_cells_no_exit0)

lemma generate_slide_embed_no_exit0: "generate_slide_embed e v dir k sf \<noteq> Inl (SystemExit 0)"
  by (auto simp: generate_slide_embed_def split: pyval.splits)

lemma link_dicts_no_exit0: "link_dicts ls \<noteq> Inl (SystemExit 0)"
  by (induction ls) (auto split: sum.splits pyval.splits)

lemma link_items_no_exit0: "link_items v \<noteq> Inl (SystemExit 0)"
  by (auto simp: link_items_def link_dicts_no_exit0 split: pyval.splits)

lemma process_markdown_no_exit0: "process_markdown e fp f cfg \<noteq> Inl (SystemExit 0)"
  by (auto simp: process_markdown_def Let_def bind_err_Inl apply_metadata_overrides_no_exit0
      generate_slide_embed_no_exit0 link_items_no_exit0)

lemma process_notebooks_no_exit0: "process_notebooks e cfg ttl fld sl nbs \<noteq> Inl (SystemExit 0)"
proof (induction nbs)
  case Nil
  show ?case by simp
next
  case (Cons a nbs)
  obtain p nb where a: "a = (p, nb)" by (cases a)
  show ?case unfolding a process_notebooks.simps
    using Cons by (auto simp: bind_err_Inl process_notebook_no_exit0)
qed

lemma process_markdowns_no_exit0: "process_markdowns e cfg ttl fld sl mds \<noteq> Inl (SystemExit 0)"
proof (induction mds)
  case Nil
  show ?case by simp
next
  case (Cons a mds)
  obtain p f where a: "a = (p, f)" by (cases a)
  show ?case unfolding a process_markdowns.simps
    using Cons by (auto simp: bind_err_Inl process_markdown_no_exit0)
qed

lemma process_section_no_exit0: "process_section e cfg s \<noteq> Inl (SystemExit 0)"
  by (auto simp: process_section_def Let_def bind_err_Inl process_notebooks_no_exit0
      process_markdowns_no_exit0)

lemma process_sections_no_exit0: "process_sections e cfg ss \<noteq> Inl (SystemExit 0)"
  by (induction ss) (auto simp: bind_err_Inl process_section_no_exit0)

text \<open>An exception in one item is an exception of the loop over the sections.\<close>

lemma bind_err_raises: "m = Inl err \<Longrightarrow> bind_err m f = Inl err"
  by (simp add: bind_err_def)

lemma process_notebooks_raises:
  assumes "(fp, nb) \<in> set nbs" and "\<not> contains (as_posix fp) ''.ipynb_checkpoints''"
    and "process_notebook e fp nb cfg = Inl err"
  shows "\<exists>err'. process_notebooks e cfg ttl fld sl nbs = Inl err'"
  using assms
proof (induction nbs)
  case Nil
  then show ?case by simp
next
  case (Cons a nbs)
  obtain p n where a: "a = (p, n)" by (cases a)
  show ?case
  proof (cases "a = (fp, nb)")
    case True
    then show ?thesis using Cons.prems a by (auto simp: bind_err_def)
  next
    case False
    then have "\<exists>err'. process_notebooks e cfg ttl fld sl nbs = Inl err'"
      using Cons by auto
    then show ?thesis unfolding a
      by (auto simp: bind_err_def split: sum.splits)
  qed
qed

lemma process_markdowns_raises:
  assumes "(fp, f) \<in> set mds" and "process_markdown e fp f cfg = Inl err"
  shows "\<exists>err'. process_markdowns e cfg ttl fld sl mds = Inl err'"
  using assms
proof (induction mds)
  case Nil
  then show ?case by simp
next
  case (Cons a mds)
  obtain p n where a: "a = (p, n)" by (cases a)
  show ?case
  proof (cases "a = (fp, f)")
    case True
    then show ?thesis using Cons.prems a by (auto simp: bind_err_def)
  next
    case False
    then have "\<exists>err'. process_markdowns e cfg ttl fld sl mds = Inl err'"
      using Cons by auto
    then show ?thesis unfolding a
      by (auto simp: bind_err_def split: sum.splits)
  qed
qed

lemma process_sections_raises:
  assumes "s \<in> set ss" and "process_section e cfg s = Inl err"
  shows "\<exists>err'. process_sections e cfg ss = Inl err'"
  using assms
proof (induction ss)
  case Nil
  then show ?case by simp
next
  case (Cons a ss)
  show ?case
  proof (cases "a = s")
    case True
    then show ?thesis using Cons.prems by (auto simp: bind_err_def)
  next
    case False
    then have "\<exists>err'. process_sections e cfg ss = Inl err'" using Cons by auto
    then show ?thesis by (auto simp: bind_err_def split: sum.splits)
  qed
qed

lemma main_raises:
  assumes "process_sections e cfg (sections cfg) = Inl err"
  shows "exit_code (main e cfg) = exit_status err \<and> index_written (main e cfg) = None"
proof -
  have "sections cfg \<noteq> []" using assms by auto
  then show ?thesis using assms by (simp add: main_def)
qed

section \<open>A missing slide file\<close>

lemma process_notebook_missing_slide:
  assumes meta: "apply_metadata_overrides fp (get_notebook_metadata nb) cfg = Inr meta"
    and sl: "dget meta ''slides'' = PStr sf" "sf \<noteq> []"
    and missing: "\<not> slide_found e (path_parent (as_posix fp)) sf"
  shows "\<exists>err. process_notebook e fp nb cfg = Inl err \<and> exit_status err \<noteq> 0"
proof (cases "process_notebook e fp nb cfg")
  case (Inl err)
  then have "err \<noteq> SystemExit 0" using process_notebook_no_exit0[of e fp nb cfg] by auto
  then have "exit_status err \<noteq> 0" using exit_status_nonzero by blast
  then show ?thesis using Inl by blast
next
  case (Inr res)
  have ne: "meta \<noteq> []" using sl by (auto simp: dget_def)
  have "slide_cells e (path_parent (as_posix fp)) (dget meta ''slides'') = Inl (SystemExit 1)"
    using sl missing by (simp add: slide_cells_def)
  then show ?thesis using process_notebook_cases[OF Inr] meta ne by auto
qed

lemma process_markdown_missing_slide:
  assumes fm: "apply_metadata_overrides mp (md_frontmatter f) cfg = Inr fm"
    and sl: "dget fm ''slides'' = PStr sf" "sf \<noteq> []"
    and missing: "\<not> slide_found e (path_parent (as_posix mp)) sf"
  shows "\<exists>err. process_markdown e mp f cfg = Inl err \<and> exit_status err \<noteq> 0"
proof -
  have "generate_slide_embed e (dget fm ''slides'') (path_parent (as_posix mp)) ''markdown'' None
        = Inl (SystemExit 1)"
    using sl missing by (simp add: generate_slide_embed_def)
  then have "process_markdown e mp f cfg = Inl (SystemExit 1)"
    using fm sl by (simp add: process_markdown_def Let_def bind_err_def)
  then show ?thesis by simp
qed

lemma run_stops_on_section_error:
  assumes "s \<in> set (sections cfg)" and "process_section e cfg s = Inl err"
  shows "exit_code (main e cfg) \<noteq> 0 \<and> index_written (main e cfg) = None"
proof -
  from process_sections_raises[OF assms] obtain err'
    where err': "process_sections e cfg (sections cfg) = Inl err'" by blast
  then have "err' \<noteq> SystemExit 0"
    using process_sections_no_exit0[of e cfg "sections cfg"] by auto
  then have "exit_status err' \<noteq> 0" using exit_status_nonzero by blast
  then show ?thesis using main_raises[OF err'] by simp
qed

lemma process_section_notebook_raises:
  assumes "\<not> entry_draft s" "entry_folder s \<noteq> []" "path_exists e (entry_folder s)"
    and "(fp, nb) \<in> set (notebooks_in e (entry_folder s))"
    and "\<not> contains (as_posix fp) ''.ipynb_checkpoints''"
    and "process_notebook e fp nb cfg = Inl err"
  shows "\<exists>err'. process_section e cfg s = Inl err'"
proof -
  from process_notebooks_raises[OF assms(4,5,6)] obtain err' where
    "process_notebooks e cfg (entry_title s) (entry_folder s) (entry_slides s)
       (notebooks_in e (entry_folder s)) = Inl err'" by blast
  then show ?thesis using assms(1,2,3) by (simp add: process_section_def Let_def bind_err_def)
qed

lemma process_section_markdown_raises:
  assumes "\<not> entry_draft s" "entry_folder s \<noteq> []" "path_exists e (entry_folder s)"
    and "(mp, f) \<in> set (markdowns_in e (entry_folder s))"
    and "process_markdown e mp f cfg = Inl err"
  shows "\<exists>err'. process_section e cfg s = Inl err'"
proof -
  from process_markdowns_raises[OF assms(4,5)] obtain err' where
    "process_markdowns e cfg (entry_title s) (entry_folder s) (entry_slides s)
       (markdowns_in e (entry_folder s)) = Inl err'" by blast
  then show ?thesis using assms(1,2,3)
    by (auto simp: process_section_def Let_def bind_err_def split: sum.splits)
qed

text \<open>
  C7.  In a section that is processed (listed, not a draft, its folder exists), a notebook
  (outside \<open>.ipynb_checkpoints\<close>) or a markdown page whose merged metadata names a slide
  file that exists neither below the directory of the item nor as a path of its own makes
  the processing of that item raise, the run ends with an exit status other than zero,
  and the index page is not written.
\<close>

theorem missing_slide_file_is_fatal:
  assumes "s \<in> set (sections cfg)" and "\<not> entry_draft s" and "entry_folder s \<noteq> []"
    and "path_exists e (entry_folder s)"
  shows "((fp, nb) \<in> set (notebooks_in e (entry_folder s))
          \<and> \<not> contains (as_posix fp) ''.ipynb_checkpoints''
          \<and> apply_metadata_overrides fp (get_notebook_metadata nb) cfg = Inr meta
          \<and> dget meta ''slides'' = PStr sf \<and> sf \<noteq> []
          \<and> \<not> slide_found e (path_parent (as_posix fp)) sf
          \<longrightarrow> (\<exists>err. process_notebook e fp nb cfg = Inl err \<and> exit_status err \<noteq> 0)
              \<and> exit_code (main e cfg) \<noteq> 0 \<and> index_written (main e cfg) = None)
       \<and> ((mp, f) \<in> set (markdowns_in e (entry_folder s))
          \<and> apply_metadata_overrides mp (md_frontmatter f) cfg = Inr fm
          \<and> dget fm ''slides'' = PStr sf' \<and> sf' \<noteq> []
          \<and> \<not> slide_found e (path_parent (as_posix mp)) sf'
          \<longrightarrow> (\<exists>err. process_markdown e mp f cfg = Inl err \<and> exit_status err \<noteq> 0)
              \<and> exit_code (main e cfg) \<noteq> 0 \<and> index_written (main e cfg) = None)"
proof (intro conjI impI)
  assume a: "(fp, nb) \<in> set (notebooks_in e (entry_folder s))
          \<and> \<not> contains (as_posix fp) ''.ipynb_checkpoints''
          \<and> apply_metadata_overrides fp (get_notebook_metadata nb) cfg = Inr meta
          \<and> dget meta ''slides'' = PStr sf \<and> sf \<noteq> []
          \<and> \<not> slide_found e (path_parent (as_posix fp)) sf"
  then obtain err where err: "process_notebook e fp nb cfg = Inl err" "exit_status err \<noteq> 0"
    using process_notebook_missing_slide by blast
  then show "\<exists>err. process_notebook e fp nb cfg = Inl err \<and> exit_status err \<noteq> 0" by blast
  from process_section_notebook_raises[OF assms(2,3,4) _ _ err(1)] a
  obtain err' where "process_section e cfg s = Inl err'" by blast
  from run_stops_on_section_error[OF assms(1) this]
  show "exit_code (main e cfg) \<noteq> 0" and "index_written (main e cfg) = None" by simp_all
next
  assume a: "(mp, f) \<in> set (markdowns_in e (entry_folder s))
          \<and> apply_metadata_overrides mp (md_frontmatter f) cfg = Inr fm
          \<and> dget fm ''slides'' = PStr sf' \<and> sf' \<noteq> []
          \<and> \<not> slide_found e (path_parent (as_posix mp)) sf'"
  then obtain err where err: "process_markdown e mp f cfg = Inl err" "exit_status err \<noteq> 0"
    using process_markdown_missing_slide by blast
  then show "\<exists>err. process_markdown e mp f cfg = Inl err \<and> exit_status err \<noteq> 0" by blast
  from process_section_markdown_raises[OF assms(2,3,4) _ err(1)] a
  obtain err' where "process_section e cfg s = Inl err'" by blast
  from run_stops_on_section_error[OF assms(1) this]
  show "exit_code (main e cfg) \<noteq> 0" and "index_written (main e cfg) = None" by simp_all
qed

theorem missing_slide_file_is_fatal_witness:
  "SecName ''section1'' \<in> set (sections slides_config)
   \<and> \<not> entry_draft (SecName ''section1'')
   \<and> entry_folder (SecName ''section1'') \<noteq> []
   \<and> path_exists slides_env (entry_folder (SecName ''section1''))
   \<and> (intro1, slides_notebook) \<in> set (notebooks_in slides_env (entry_folder (SecName ''section1'')))
   \<and> \<not> contains (as_posix intro1) ''.ipynb_checkpoints''
   \<and> apply_metadata_overrides intro1 (get_notebook_metadata slides_notebook) slides_config
       = Inr [(''slides'', PStr ''deck.pdf'')]
   \<and> dget [(''slides'', PStr ''deck.pdf'')] ''slides'' = PStr ''deck.pdf''
   \<and> \<not> slide_found slides_env (path_parent (as_posix intro1)) ''deck.pdf''
   \<and> (notes_md, slides_markdown) \<in> set (markdowns_in slides_env (entry_folder (SecName ''section1'')))
   \<and> apply_metadata_overrides notes_md (md_frontmatter slides_markdown) slides_config
       = Inr [(''slides'', PStr ''deck.pdf'')]
   \<and> \<not> slide_found slides_env (path_parent (as_posix notes_md)) ''deck.pdf''
   \<and> (\<exists>err. process_notebook slides_env intro1 slides_notebook slides_config = Inl err
             \<and> exit_status err \<noteq> 0)
   \<and> (\<exists>err. process_markdown slides_env notes_md slides_markdown slides_config = Inl err
             \<and> exit_status err \<noteq> 0)
   \<and> exit_code (main slides_env slides_config) \<noteq> 0
   \<and> index_written (main slides_env slides_config) = None"
proof -
  have h1: "SecName ''section1'' \<in> set (sections slides_config)"
    by (simp add: slides_config_def)
  have h2: "\<not> entry_draft (SecName ''section1'')" by (simp add: entry_draft_def)
  have h3: "entry_folder (SecName ''section1'') \<noteq> []" by (simp add: entry_folder_def)
  have h4: "path_exists slides_env (entry_folder (SecName ''section1''))"
    by (simp add: entry_folder_def slides_env_def quiet_env_def)
  have n1: "(intro1, slides_notebook) \<in> set (notebooks_in slides_env (entry_folder (SecName ''section1'')))"
    by (simp add: entry_folder_def slides_env_def)
  have n2: "\<not> contains (as_posix intro1) ''.ipynb_checkpoints''" by code_simp
  have n3: "apply_metadata_overrides intro1 (get_notebook_metadata slides_notebook) slides_config
       = Inr [(''slides'', PStr ''deck.pdf'')]" by code_simp
  have n4: "dget [(''slides'', PStr ''deck.pdf'')] ''slides'' = PStr ''deck.pdf''"
    by (simp add: dget_def)
  have n5: "\<not> slide_found slides_env (path_parent (as_posix intro1)) ''deck.pdf''" by code_simp
  have m1: "(notes_md, slides_markdown) \<in> set (markdowns_in slides_env (entry_folder (SecName ''section1'')))"
    by (simp add: entry_folder_def slides_env_def)
  have m3: "apply_metadata_overrides notes_md (md_frontmatter slides_markdown) slides_config
       = Inr [(''slides'', PStr ''deck.pdf'')]" by code_simp
  have m5: "\<not> slide_found slides_env (path_parent (as_posix notes_md)) ''deck.pdf''" by code_simp
  have ne: "''deck.pdf'' \<noteq> []" by simp
  show ?thesis
    using h1 h2 h3 h4 n1 n2 n3 n4 n5 m1 m3 m5 ne
      missing_slide_file_is_fatal[OF h1 h2 h3 h4, of intro1 slides_notebook
        "[(''slides'', PStr ''deck.pdf'')]" "''deck.pdf''" notes_md slides_markdown
        "[(''slides'', PStr ''deck.pdf'')]" "''deck.pdf''"]
    by blast
qed

section \<open>Records of a section\<close>

text \<open>Every record that the loop collects for a section entry carries the title of the entry.\<close>

lemma process_notebooks_titles:
  "process_notebooks e cfg ttl fld sl nbs = Inr its \<Longrightarrow> \<forall>it \<in> set its. item_section it = ttl"
proof (induction nbs arbitrary: its)
  case Nil
  then show ?case by simp
next
  case (Cons a nbs)
  obtain p nb where a: "a = (p, nb)" by (cases a)
  show ?case using Cons unfolding a
    by (auto simp: in_section_def dest!: bind_err_Inr split: if_splits option.splits)
qed

lemma process_markdowns_titles:
  "process_markdowns e cfg ttl fld sl mds = Inr its \<Longrightarrow> \<forall>it \<in> set its. item_section it = ttl"
proof (induction mds arbitrary: its)
  case Nil
  then show ?case by simp
next
  case (Cons a mds)
  obtain p f where a: "a = (p, f)" by (cases a)
  show ?case using Cons unfolding a
    by (auto simp: in_section_def dest!: bind_err_Inr)
qed

lemma process_section_titles:
  assumes "process_section e cfg s = Inr its"
  shows "\<forall>it \<in> set its. item_section it = entry_title s"
  using assms process_notebooks_titles process_markdowns_titles
  by (fastforce simp: process_section_def Let_def placeholder_def
      dest!: bind_err_Inr split: if_splits)

lemma process_section_draft:
  "entry_draft s \<Longrightarrow> process_section e cfg s
     = Inr [placeholder (entry_title s) (entry_folder s) (entry_description s)]"
  by (simp add: process_section_def Let_def)

lemma process_sections_filter:
  assumes "process_sections e cfg ss = Inr its"
  shows "filter (\<lambda>it. item_section it = t) its
         = concat (map (\<lambda>s. case process_section e cfg s of Inr x \<Rightarrow> x | Inl err \<Rightarrow> [])
                     (filter (\<lambda>s. entry_title s = t) ss))"
  using assms
proof (induction ss arbitrary: its)
  case Nil
  then show ?case by simp
next
  case (Cons s ss)
  from Cons.prems obtain x xs where x: "process_section e cfg s = Inr x"
    and xs: "process_sections e cfg ss = Inr xs" and its: "its = x @ xs"
    by (auto dest!: bind_err_Inr)
  have fx: "filter (\<lambda>it. item_section it = t) x = (if entry_title s = t then x else [])"
    using process_section_titles[OF x] by (auto simp: filter_empty_conv filter_id_conv)
  show ?case using Cons.IH[OF xs] x fx by (simp add: its)
qed

text \<open>The group of a title holds the records of that title, in order.\<close>

lemma group_items_snoc:
  "group_items (xs @ [x]) =
     AList.update (item_section x)
       ((case map_of (group_items xs) (item_section x) of None \<Rightarrow> [] | Some ys \<Rightarrow> ys) @ [x])
       (group_items xs)"
  by (simp add: group_items_def)

lemma map_of_group_items:
  "map_of (group_items its) t
   = (if filter (\<lambda>it. item_section it = t) its = [] then None
      else Some (filter (\<lambda>it. item_section it = t) its))"
proof (induction its arbitrary: t rule: rev_induct)
  case Nil
  show ?case by (simp add: group_items_def)
next
  case (snoc x xs)
  show ?case unfolding group_items_snoc using snoc[of t] snoc[of "item_section x"]
    by (auto simp: update_conv')
qed

lemma group_items_keys:
  "t \<in> fst ` set (group_items its) \<longleftrightarrow> filter (\<lambda>it. item_section it = t) its \<noteq> []"
proof -
  have "t \<in> fst ` set (group_items its) \<longleftrightarrow> map_of (group_items its) t \<noteq> None"
    by (simp add: map_of_eq_None_iff)
  then show ?thesis by (simp add: map_of_group_items)
qed

lemma section_order_declared:
  assumes "SecDict c \<in> set (sections cfg)" and "sec_title_of c \<in> fst ` set groups"
  shows "sec_title_of c \<in> set (section_order cfg groups)"
proof -
  have "sec_title_of c \<in> set (concat (map (\<lambda>s. case s of
            SecDict c \<Rightarrow> if sec_title_of c \<in> fst ` set groups then [sec_title_of c] else []
          | SecName n \<Rightarrow> []) (sections cfg)))"
    using assms by (auto intro!: bexI[of _ "SecDict c"])
  then show ?thesis by (simp add: section_order_def Let_def)
qed

lemma render_sections_part:
  assumes "render_sections e cfg groups order_list = Inr body" and "t \<in> set order_list"
  shows "\<exists>x pre post. render_section e cfg groups t = Inr x \<and> body = pre @ x @ post"
  using assms
proof (induction order_list arbitrary: body)
  case Nil
  then show ?case by simp
next
  case (Cons s ss)
  from Cons.prems(1) obtain x xs where x: "render_section e cfg groups s = Inr x"
    and xs: "render_sections e cfg groups ss = Inr xs" and body: "body = x @ xs"
    by (auto dest!: bind_err_Inr)
  show ?case
  proof (cases "t = s")
    case True
    then have "render_section e cfg groups t = Inr x \<and> body = [] @ x @ xs" using x body by simp
    then show ?thesis by blast
  next
    case False
    then have "t \<in> set ss" using Cons.prems(2) by simp
    from Cons.IH[OF xs this] obtain y pre post
      where "render_section e cfg groups t = Inr y" "xs = pre @ y @ post" by blast
    then have "render_section e cfg groups t = Inr y \<and> body = (x @ pre) @ y @ post"
      using body by simp
    then show ?thesis by blast
  qed
qed

text \<open>
  A draft section whose title no other entry of the configuration shares: its one
  placeholder is the only record under the title, and the index shows the heading, the
  description when there is one, and the notice.
\<close>

lemma draft_section_alone:
  assumes dr: "entry_draft s"
    and alone: "filter (\<lambda>s'. entry_title s' = entry_title s) (sections cfg) = [s]"
    and run: "process_sections e cfg (sections cfg) = Inr its"
  shows "filter (\<lambda>it. item_section it = entry_title s) its
           = [placeholder (entry_title s) (entry_folder s) (entry_description s)]"
    and "render_section e cfg (group_items its) (entry_title s)
           = Inr (section_heading (entry_title s)
                  # (if entry_description s \<noteq> []
                     then [[CHR 0x0A] @ entry_description s @ [CHR 0x0A, CHR 0x0A]] else [])
                  @ [draft_notice])"
    and "create_index e cfg its = Inr md \<Longrightarrow>
           \<exists>pre post. md = pre @ (section_heading (entry_title s)
                  # (if entry_description s \<noteq> []
                     then [[CHR 0x0A] @ entry_description s @ [CHR 0x0A, CHR 0x0A]] else [])
                  @ [draft_notice]) @ post"
proof -
  let ?t = "entry_title s"
  let ?p = "placeholder ?t (entry_folder s) (entry_description s)"
  let ?out = "section_heading ?t
                  # (if entry_description s \<noteq> []
                     then [[CHR 0x0A] @ entry_description s @ [CHR 0x0A, CHR 0x0A]] else [])
                  @ [draft_notice]"
  show f: "filter (\<lambda>it. item_section it = ?t) its = [?p]"
    using process_sections_filter[OF run, of ?t] alone process_section_draft[OF dr]
    by simp
  then have m: "map_of (group_items its) ?t = Some [?p]" by (simp add: map_of_group_items)
  show r: "render_section e cfg (group_items its) ?t = Inr ?out"
    using m by (simp add: render_section_def draft_body_def placeholder_def py_str.simps)
  show "\<exists>pre post. md = pre @ ?out @ post" if ci: "create_index e cfg its = Inr md"
  proof -
    from ci obtain root body where
      body: "render_sections e cfg (group_items its) (section_order cfg (group_items its)) = Inr body"
      and md: "md = root @ body"
      by (auto simp: create_index_def Let_def dest!: bind_err_Inr)
    have "s \<in> set (filter (\<lambda>s'. entry_title s' = entry_title s) (sections cfg))"
      by (simp add: alone)
    then have "s \<in> set (sections cfg)" by simp
    moreover obtain c where c: "s = SecDict c" using dr by (cases s) (auto simp: entry_draft_def)
    ultimately have "SecDict c \<in> set (sections cfg)" by simp
    moreover have "sec_title_of c \<in> fst ` set (group_items its)"
      using f c by (simp add: group_items_keys entry_title_def)
    ultimately have "?t \<in> set (section_order cfg (group_items its))"
      using section_order_declared c by (simp add: entry_title_def)
    from render_sections_part[OF body this] r obtain pre post where "body = pre @ ?out @ post"
      by auto
    then have "md = (root @ pre) @ ?out @ post" using md by simp
    then show ?thesis by blast
  qed
qed

section \<open>Draft sections\<close>

text \<open>
  C8.  Two draft sections that share their title give two placeholder records under that
  title.  The index builder takes a section for a draft only when it holds exactly one
  record, so it renders the two placeholders as items and raises \<open>KeyError\<close> on the
  first: the run ends with status 1 and no index is written.  Each of the two sections
  alone is rendered as its heading and the notice.
\<close>

theorem draft_sections_sharing_title_crash:
  "process_sections quiet_env soon_config (sections soon_config)
     = Inr [placeholder ''Coming soon'' ''week3'' [], placeholder ''Coming soon'' ''week4'' []]
   \<and> create_index quiet_env soon_config
         [placeholder ''Coming soon'' ''week3'' [], placeholder ''Coming soon'' ''week4'' []]
       = Inl (KeyError ''exercise_file'')
   \<and> exit_code (main quiet_env soon_config) = 1
   \<and> index_written (main quiet_env soon_config) = None
   \<and> index_written (main quiet_env one_draft_config)
       = Some [section_heading ''Coming soon'', draft_notice]"
proof -
  have a: "process_sections quiet_env soon_config (sections soon_config)
     = Inr [placeholder ''Coming soon'' ''week3'' [], placeholder ''Coming soon'' ''week4'' []]"
    by code_simp
  have b: "create_index quiet_env soon_config
         [placeholder ''Coming soon'' ''week3'' [], placeholder ''Coming soon'' ''week4'' []]
       = Inl (KeyError ''exercise_file'')"
    by code_simp
  have c: "exit_code (main quiet_env soon_config) = 1" by code_simp
  have d: "index_written (main quiet_env soon_config) = None" by code_simp
  have e: "index_written (main quiet_env one_draft_config)
       = Some [section_heading ''Coming soon'', draft_notice]" by code_simp
  from a b c d e show ?thesis by simp
qed

theorem draft_sections_sharing_title_crash_witness:
  "exit_code (main quiet_env soon_config) \<noteq> 0
   \<and> index_written (main quiet_env soon_config)
       \<noteq> Some [section_heading ''Coming soon'', draft_notice]
   \<and> index_written (main quiet_env one_draft_config)
       = Some [section_heading ''Coming soon'', draft_notice]"
  using draft_sections_sharing_title_crash by simp

section \<open>The merge on the store\<close>

subsection \<open>Objects that exist are not changed\<close>

lemma h_dict_prefix:
  assumes "prefix h h'" and "h_dict h v = Some d"
  shows "h_dict h' v = Some d"
proof -
  from assms(1) obtain zs where "h' = h @ zs" by (auto simp: prefix_def)
  then show ?thesis using assms(2)
    by (auto simp: h_dict_def nth_append split: hval.splits if_splits)
qed

lemma set_item_prefix:
  assumes "prefix P h" and "length P \<le> r"
  shows "prefix P (set_item h r k v)"
proof -
  from assms(1) obtain zs where "h = P @ zs" by (auto simp: prefix_def)
  then show ?thesis using assms(2)
    by (auto simp: set_item_def list_update_append split: option.splits)
qed

lemma set_item_dict:
  "h_dict h (Ref r) \<noteq> None \<Longrightarrow> h_dict (set_item h r k v) (Ref r) \<noteq> None"
  by (auto simp: set_item_def h_dict_def split: if_splits obj.splits)

lemma set_item_length: "length (set_item h r k v) = length h"
  by (simp add: set_item_def split: option.splits)

lemma h_dict_valid: "h_dict h (Ref r) \<noteq> None \<Longrightarrow> r < length h"
  by (auto simp: h_dict_def split: if_splits)

lemma merge_frame:
  "deep_merge_h n h base ov = Some (res, h') \<Longrightarrow>
     prefix h h' \<and> (\<forall>r. res = Inr r \<longrightarrow> length h \<le> r \<and> h_dict h' (Ref r) \<noteq> None)"
  "merge_items_h n h r items = Some (res, h') \<Longrightarrow> h_dict h (Ref r) \<noteq> None \<Longrightarrow>
     (\<forall>P. prefix P h \<and> length P \<le> r \<longrightarrow> prefix P h') \<and> (\<forall>r'. res = Inr r' \<longrightarrow> r' = r)
     \<and> h_dict h' (Ref r) \<noteq> None"
proof (induction n h base ov and n h r items arbitrary: res h' and res h'
    rule: deep_merge_h_merge_items_h.induct)
  case (1 h base override)
  then show ?case by simp
next
  case (2 n h base override)
  let ?h1 = "case h_dict h base of None \<Rightarrow> h @ [ODict []] | Some d \<Rightarrow> h"
  let ?h2 = "?h1 @ [ODict (case h_dict h base of None \<Rightarrow> [] | Some d \<Rightarrow> d)]"
  have p1: "prefix h ?h1" by (simp split: option.splits)
  then have p2: "prefix h ?h2" by (meson prefix_order.trans prefixI)
  have len: "length h \<le> length ?h1" using p1 by (rule prefix_length_le)
  have d2: "h_dict ?h2 (Ref (length ?h1)) \<noteq> None" by (simp add: h_dict_def)
  show ?case
  proof (cases "h_truthy ?h2 override")
    case False
    then have "res = Inr (length ?h1)" and h': "h' = ?h2 @ [ODict []]"
      using "2.prems" by (simp_all add: Let_def)
    moreover have "prefix h h'" unfolding h' using p2 by (meson prefix_order.trans prefixI)
    moreover have "h_dict h' (Ref (length ?h1)) \<noteq> None"
      unfolding h' by (simp add: h_dict_def nth_append)
    ultimately show ?thesis using len by simp
  next
    case True
    show ?thesis
    proof (cases "h_dict ?h2 override")
      case None
      then have "res = Inl AttributeError" "h' = ?h2" using "2.prems" True by (simp_all add: Let_def)
      then show ?thesis using p2 by simp
    next
      case (Some items)
      then have run: "merge_items_h n ?h2 (length ?h1) items = Some (res, h')"
        using "2.prems" True by (simp add: Let_def)
      from "2.IH"[OF refl refl refl _ Some run d2] True
      have "(\<forall>P. prefix P ?h2 \<and> length P \<le> length ?h1 \<longrightarrow> prefix P h')"
        and "\<forall>r'. res = Inr r' \<longrightarrow> r' = length ?h1" and "h_dict h' (Ref (length ?h1)) \<noteq> None"
        by simp_all
      then show ?thesis using p2 len by blast
    qed
  qed
next
  case (3 n h result)
  then show ?case by auto
next
  case (4 n h result k v rest)
  let ?cur = "h_get (case h_dict h (Ref result) of None \<Rightarrow> [] | Some d \<Rightarrow> d) k"
  show ?case
  proof (cases "h_dict h v \<noteq> None \<and> h_dict h ?cur \<noteq> None")
    case False
    then have run: "merge_items_h n (set_item h result k v) result rest = Some (res, h')"
      using "4.prems"(1) by (auto simp: Let_def)
    from "4.IH"(3)[OF refl False run set_item_dict[OF "4.prems"(2)]]
    show ?thesis using set_item_prefix by blast
  next
    case True
    then obtain res1 h1 where
      rec: "deep_merge_h n (h @ [ODict []]) ?cur v = Some (res1, h1)"
      using "4.prems"(1) by (auto simp: Let_def split: option.splits)
    from "4.IH"(1)[OF refl True rec] have p: "prefix (h @ [ODict []]) h1"
      and fresh: "\<forall>r. res1 = Inr r \<longrightarrow> length (h @ [ODict []]) \<le> r \<and> h_dict h1 (Ref r) \<noteq> None"
      by simp_all
    have ph: "prefix h h1" using p by (meson prefix_order.trans prefixI)
    obtain d where d: "h_dict h (Ref result) = Some d" using "4.prems"(2) by auto
    have d1: "h_dict h1 (Ref result) \<noteq> None" using h_dict_prefix[OF ph d] by simp
    show ?thesis
    proof (cases res1)
      case (Inl e)
      then have "res = Inl e" "h' = h1" using "4.prems"(1) True rec by (simp_all add: Let_def)
      then show ?thesis using ph d1 by (auto intro: prefix_order.trans)
    next
      case (Inr a)
      then have run: "merge_items_h n (set_item h1 result k (Ref a)) result rest = Some (res, h')"
        using "4.prems"(1) True rec by (simp add: Let_def)
      from "4.IH"(2)[OF refl True rec refl Inr run set_item_dict[OF d1]]
      have "(\<forall>P. prefix P (set_item h1 result k (Ref a)) \<and> length P \<le> result \<longrightarrow> prefix P h')"
        and "\<forall>r'. res = Inr r' \<longrightarrow> r' = result" and "h_dict h' (Ref result) \<noteq> None"
        by simp_all
      then show ?thesis using set_item_prefix ph by (meson prefix_order.trans)
    qed
  qed
qed


lemma prefix_snoc: "prefix h h' \<Longrightarrow> prefix h (h' @ zs)"
  by (meson prefix_order.trans prefixI)

lemma next_rule_frame: "next_rule h src = (h1, rule) \<Longrightarrow> prefix h h1"
  by (auto simp: next_rule_def Let_def split: rule_src.splits option.splits if_splits)

lemma apply_rules_frame:
  assumes "apply_rules_h n h rel nm merged srcs = Some (res, h')"
    and "h_dict h (Ref merged) \<noteq> None"
  shows "prefix h h' \<and> (\<forall>r. res = Inr r \<longrightarrow> (r = merged \<or> length h \<le> r) \<and> h_dict h' (Ref r) \<noteq> None)"
  using assms
proof (induction srcs arbitrary: h merged)
  case Nil
  then show ?case by auto
next
  case (Cons src rest)
  obtain h1 rule where nr: "next_rule h src = (h1, rule)" by (cases "next_rule h src")
  have p1: "prefix h h1" using nr by (rule next_rule_frame)
  then have len1: "length h \<le> length h1" by (rule prefix_length_le)
  obtain d where d: "h_dict h (Ref merged) = Some d" using Cons.prems(2) by auto
  have d1: "h_dict h1 (Ref merged) \<noteq> None" using h_dict_prefix[OF p1 d] by simp
  have skip: ?case if run: "apply_rules_h n h1 rel nm merged rest = Some (res, h')"
  proof -
    from Cons.IH[OF run d1]
    have "prefix h1 h'" and "\<forall>r. res = Inr r \<longrightarrow> (r = merged \<or> length h1 \<le> r) \<and> h_dict h' (Ref r) \<noteq> None"
      by simp_all
    then show ?thesis using p1 len1 by (auto intro: prefix_order.trans)
  qed
  show ?case
  proof (cases rule)
    case None
    then show ?thesis using Cons.prems(1) nr skip by simp
  next
    case (Some pv)
    obtain pattern vals where pv: "pv = (pattern, vals)" by (cases pv)
    show ?thesis
    proof (cases "\<exists>pat. pattern = HStr pat \<and> rule_applies rel nm pat")
      case False
      then consider "\<exists>pat. pattern = HStr pat \<and> \<not> rule_applies rel nm pat" | "\<forall>pat. pattern \<noteq> HStr pat"
        by blast
      then show ?thesis
      proof cases
        case 1
        then show ?thesis using Cons.prems(1) nr Some pv skip by auto
      next
        case 2
        then have "res = Inl TypeError" "h' = h1"
          using Cons.prems(1) nr Some pv by (auto split: hval.splits)
        then show ?thesis using p1 by simp
      qed
    next
      case True
      then obtain pat where pat: "pattern = HStr pat" "rule_applies rel nm pat" by blast
      then obtain res1 h2 where dm: "deep_merge_h n h1 (Ref merged) vals = Some (res1, h2)"
        using Cons.prems(1) nr Some pv by (auto split: option.splits)
      from merge_frame(1)[OF dm] have p2: "prefix h1 h2"
        and fresh: "\<forall>r. res1 = Inr r \<longrightarrow> length h1 \<le> r \<and> h_dict h2 (Ref r) \<noteq> None" by simp_all
      have ph2: "prefix h h2" using p1 p2 by (rule prefix_order.trans)
      show ?thesis
      proof (cases res1)
        case (Inl e)
        then have "res = Inl e" "h' = h2" using Cons.prems(1) nr Some pv pat dm by simp_all
        then show ?thesis using ph2 by simp
      next
        case (Inr r1)
        then have run: "apply_rules_h n h2 rel nm r1 rest = Some (res, h')"
          using Cons.prems(1) nr Some pv pat dm by simp
        have r1: "length h1 \<le> r1" "h_dict h2 (Ref r1) \<noteq> None" using fresh Inr by simp_all
        from Cons.IH[OF run r1(2)]
        have "prefix h2 h'"
          and "\<forall>r. res = Inr r \<longrightarrow> (r = r1 \<or> length h2 \<le> r) \<and> h_dict h' (Ref r) \<noteq> None"
          by simp_all
        moreover have "length h1 \<le> length h2" using p2 by (rule prefix_length_le)
        ultimately show ?thesis using ph2 r1(1) len1 by (auto intro: prefix_order.trans)
      qed
    qed
  qed
qed

lemma apply_metadata_overrides_h_frame:
  assumes "apply_metadata_overrides_h n h fp meta ov md = Some (res, h')"
  shows "prefix h h' \<and> (\<forall>r. res = Inr r \<longrightarrow> length h \<le> r \<and> h_dict h' (Ref r) \<noteq> None)"
proof -
  let ?h1 = "if h_truthy h meta then h else h @ [ODict []]"
  let ?src = "if h_truthy h meta then meta else Ref (length h)"
  have p1: "prefix h ?h1" by simp
  then have len1: "length h \<le> length ?h1" by (rule prefix_length_le)
  show ?thesis
  proof (cases "h_dict ?h1 ?src")
    case None
    then have "res = Inl TypeError" "h' = ?h1"
      using assms by (simp_all add: apply_metadata_overrides_h_def Let_def)
    then show ?thesis using p1 by simp
  next
    case (Some d)
    let ?h2 = "?h1 @ [ODict d]"
    have run: "apply_rules_h n ?h2 (rel_path fp) (path_name (as_posix fp)) (length ?h1)
                 (rule_sources ?h2 ov md) = Some (res, h')"
      using assms Some by (simp add: apply_metadata_overrides_h_def Let_def)
    have "h_dict ?h2 (Ref (length ?h1)) \<noteq> None" by (simp add: h_dict_def)
    from apply_rules_frame[OF run this]
    have a: "prefix ?h2 h'"
      and b: "\<forall>r. res = Inr r \<longrightarrow> (r = length ?h1 \<or> length ?h2 \<le> r) \<and> h_dict h' (Ref r) \<noteq> None"
      by simp_all
    have "prefix h ?h2" using p1 by (rule prefix_snoc)
    then have "prefix h h'" using a by (rule prefix_order.trans)
    moreover have "length h \<le> r \<and> h_dict h' (Ref r) \<noteq> None" if "res = Inr r" for r
    proof -
      have "r = length ?h1 \<or> length ?h2 \<le> r" and "h_dict h' (Ref r) \<noteq> None"
        using b that by simp_all
      moreover have "length ?h1 \<le> length ?h2" by simp
      ultimately show ?thesis using len1 by linarith
    qed
    ultimately show ?thesis by blast
  qed
qed


subsection \<open>The merge returns\<close>

lemma within_mono: "within d P v \<Longrightarrow> within (Suc d) P v"
proof (induction d arbitrary: v)
  case 0
  then show ?case by (auto split: hval.splits obj.splits)
next
  case (Suc d)
  have step: "list_all (\<lambda>kv. within (Suc d) P (snd kv)) es"
    if "list_all (\<lambda>kv. within d P (snd kv)) es" for es
    using that Suc.IH unfolding list_all_iff by blast
  show ?case
  proof (cases v)
    case (Ref a)
    show ?thesis
    proof (cases "P ! a")
      case (ODict es)
      then have "a < length P" and "list_all (\<lambda>kv. within d P (snd kv)) es"
        using Suc.prems Ref by simp_all
      then have "a < length P \<and> list_all (\<lambda>kv. within (Suc d) P (snd kv)) es"
        using step by blast
      then show ?thesis unfolding Ref within.simps(2)[of "Suc d"] using ODict
        by (simp del: within.simps)
    next
      case (OList xs)
      then show ?thesis using Suc.prems Ref by simp
    qed
  qed simp_all
qed

lemma within_in_store: "within d P v \<Longrightarrow> in_store P v"
  by (cases d) (auto simp: in_store_def split: hval.splits)

lemma in_store_dict: "prefix P h \<Longrightarrow> in_store P v \<Longrightarrow> h_dict h v = h_dict P v"
  by (auto simp: prefix_def in_store_def h_dict_def nth_append split: hval.splits)

lemma in_store_truthy: "prefix P h \<Longrightarrow> in_store P v \<Longrightarrow> h_truthy h v = h_truthy P v"
  by (auto simp: prefix_def in_store_def h_truthy_def nth_append split: hval.splits)

lemma within_entries:
  assumes "within (Suc d) P v" and "h_dict P v = Some es"
  shows "list_all (\<lambda>kv. within d P (snd kv)) es"
  using assms by (auto simp: h_dict_def split: hval.splits obj.splits if_splits)

lemma within_dict:
  assumes "within d P v" and "h_dict P v = Some es"
  shows "\<exists>d'. d = Suc d' \<and> list_all (\<lambda>kv. within d' P (snd kv)) es"
  using assms by (cases d) (auto simp: h_dict_def split: hval.splits obj.splits if_splits)

lemma in_store_prefix: "prefix P h \<Longrightarrow> in_store P v \<Longrightarrow> in_store h v"
  by (auto simp: in_store_def dest: prefix_length_le split: hval.splits)

lemma merge_returns:
  "prefix P h \<Longrightarrow> d < n \<Longrightarrow> in_store h ov
     \<Longrightarrow> (case h_dict h ov of None \<Rightarrow> True | Some es \<Rightarrow> list_all (\<lambda>kv. within d P (snd kv)) es)
     \<Longrightarrow> deep_merge_h n h base ov \<noteq> None"
  "prefix P h \<Longrightarrow> d \<le> n \<Longrightarrow> length P \<le> r \<Longrightarrow> h_dict h (Ref r) \<noteq> None
     \<Longrightarrow> list_all (\<lambda>kv. within d P (snd kv)) items
     \<Longrightarrow> merge_items_h n h r items \<noteq> None"
proof (induction n h base ov and n h r items arbitrary: d and d
    rule: deep_merge_h_merge_items_h.induct)
  case (1 h base override)
  then show ?case by simp
next
  case (2 n h base override)
  let ?h1 = "case h_dict h base of None \<Rightarrow> h @ [ODict []] | Some d \<Rightarrow> h"
  let ?h2 = "?h1 @ [ODict (case h_dict h base of None \<Rightarrow> [] | Some d \<Rightarrow> d)]"
  have p1: "prefix h ?h1" by (simp split: option.splits)
  then have p2: "prefix h ?h2" by (rule prefix_snoc)
  have P2: "prefix P ?h2" using "2.prems"(1) p2 by (rule prefix_order.trans)
  have len: "length P \<le> length ?h1"
    using "2.prems"(1) p1 by (meson prefix_length_le prefix_order.trans)
  have d2: "h_dict ?h2 (Ref (length ?h1)) \<noteq> None" by (simp add: h_dict_def)
  have same: "h_dict ?h2 override = h_dict h override"
    using p2 "2.prems"(3) by (rule in_store_dict)
  show ?case
  proof (cases "h_truthy ?h2 override")
    case False
    then show ?thesis by (simp add: Let_def)
  next
    case True
    show ?thesis
    proof (cases "h_dict ?h2 override")
      case None
      then show ?thesis using True by (simp add: Let_def)
    next
      case (Some items)
      then have "list_all (\<lambda>kv. within d P (snd kv)) items"
        using "2.prems"(4) same by simp
      moreover have "d \<le> n" using "2.prems"(2) by simp
      ultimately have "merge_items_h n ?h2 (length ?h1) items \<noteq> None"
        using "2.IH"[OF refl refl refl _ Some P2 _ len d2] True by simp
      then show ?thesis using True Some by (simp add: Let_def)
    qed
  qed
next
  case (3 n h result)
  then show ?case by simp
next
  case (4 n h result k v rest)
  let ?cur = "h_get (case h_dict h (Ref result) of None \<Rightarrow> [] | Some d \<Rightarrow> d) k"
  have wv: "within d P v" and wrest: "list_all (\<lambda>kv. within d P (snd kv)) rest"
    using "4.prems"(5) by simp_all
  show ?case
  proof (cases "h_dict h v \<noteq> None \<and> h_dict h ?cur \<noteq> None")
    case False
    have "prefix P (set_item h result k v)"
      using "4.prems"(1,3) by (rule set_item_prefix)
    from "4.IH"(3)[OF refl False this "4.prems"(2,3) set_item_dict[OF "4.prems"(4)] wrest]
    show ?thesis using False by (auto simp: Let_def)
  next
    case True
    let ?h0 = "h @ [ODict []]"
    have P0: "prefix P ?h0" using "4.prems"(1) by (rule prefix_snoc)
    have sv: "in_store P v" using wv by (rule within_in_store)
    have v0: "in_store ?h0 v" using P0 sv by (rule in_store_prefix)
    from True obtain es where es: "h_dict h v = Some es" by auto
    then have esP: "h_dict P v = Some es" using in_store_dict[OF "4.prems"(1) sv] by simp
    then have es0: "h_dict ?h0 v = Some es" using in_store_dict[OF P0 sv] by simp
    from within_dict[OF wv esP] obtain d' where d': "d = Suc d'"
      and wes: "list_all (\<lambda>kv. within d' P (snd kv)) es" by blast
    have "d' < n" using d' "4.prems"(2) by simp
    from "4.IH"(1)[OF refl True P0 this v0] wes es0
    have "deep_merge_h n ?h0 ?cur v \<noteq> None" by simp
    then obtain res1 h1 where rec: "deep_merge_h n ?h0 ?cur v = Some (res1, h1)" by auto
    from merge_frame(1)[OF rec] have p: "prefix ?h0 h1" by simp
    have ph: "prefix h h1" using p by (meson prefix_order.trans prefixI)
    have P1: "prefix P h1" using "4.prems"(1) ph by (rule prefix_order.trans)
    obtain dd where dd: "h_dict h (Ref result) = Some dd" using "4.prems"(4) by auto
    have d1: "h_dict h1 (Ref result) \<noteq> None" using h_dict_prefix[OF ph dd] by simp
    show ?thesis
    proof (cases res1)
      case (Inl e)
      then show ?thesis using True rec by (simp add: Let_def)
    next
      case (Inr a)
      have "prefix P (set_item h1 result k (Ref a))"
        using P1 "4.prems"(3) by (rule set_item_prefix)
      from "4.IH"(2)[OF refl True rec refl Inr this "4.prems"(2,3) set_item_dict[OF d1] wrest]
      show ?thesis using True rec Inr by (simp add: Let_def)
    qed
  qed
qed


lemma within_list_mono:
  "list_all (\<lambda>kv. within d P (snd kv)) es \<Longrightarrow> list_all (\<lambda>kv. within (Suc d) P (snd kv)) es"
  using within_mono unfolding list_all_iff by blast

lemma h_get_within:
  assumes "list_all (\<lambda>kv. within d P (snd kv)) es"
  shows "within d P (h_get es k)"
proof (cases "map_of es k")
  case None
  then show ?thesis by (cases d) (simp_all add: h_get_def)
next
  case (Some v)
  then have "(k, v) \<in> set es" by (rule map_of_SomeD)
  then have "within d P v" using assms by (auto simp: list_all_iff)
  then show ?thesis using Some by (simp add: h_get_def)
qed

lemma next_rule_within:
  assumes P: "prefix P h" and src: "src_within d P src"
    and nr: "next_rule h src = (h1, Some (pattern, vals))"
  shows "in_store h1 vals
         \<and> (case h_dict h1 vals of None \<Rightarrow> True
             | Some es \<Rightarrow> list_all (\<lambda>kv. within d P (snd kv)) es)"
proof (cases src)
  case (Entry pat v)
  then have w: "within (Suc d) P v" using src by (simp add: src_within_def)
  have eq: "h1 = h" "vals = v" using nr Entry by (auto simp: next_rule_def split: if_splits)
  have s: "in_store P v" using w by (rule within_in_store)
  have "h_dict h v = h_dict P v" using P s by (rule in_store_dict)
  then show ?thesis using eq in_store_prefix[OF P s] within_entries[OF w]
    by (auto split: option.splits)
next
  case (Item x)
  then have w: "within (Suc d) P x" using src by (simp add: src_within_def)
  have s: "in_store P x" using w by (rule within_in_store)
  have dx: "h_dict h x = h_dict P x" using P s by (rule in_store_dict)
  obtain dd where dd: "h_dict h x = Some dd"
    using nr Item by (auto simp: next_rule_def split: option.splits)
  then have wdd: "list_all (\<lambda>kv. within d P (snd kv)) dd"
    using within_entries[OF w] dx by simp
  let ?vals0 = "h_or h (h_get dd ''values'') (h_get dd ''merge'')"
  have w0: "within d P ?vals0" using h_get_within[OF wdd] by (simp add: h_or_def)
  show ?thesis
  proof (cases "h_truthy h ?vals0")
    case True
    then have eq: "h1 = h" "vals = ?vals0"
      using nr Item dd by (auto simp: next_rule_def Let_def split: if_splits)
    have s0: "in_store P ?vals0" using w0 by (rule within_in_store)
    have d0: "h_dict h ?vals0 = h_dict P ?vals0" using P s0 by (rule in_store_dict)
    have "list_all (\<lambda>kv. within d P (snd kv)) es" if "h_dict P ?vals0 = Some es" for es
      using within_dict[OF w0 that] within_list_mono by blast
    then show ?thesis unfolding eq using in_store_prefix[OF P s0] d0
      by (auto split: option.splits)
  next
    case False
    then have eq: "h1 = h @ [ODict (filter (\<lambda>kv. fst kv \<notin> {''pattern'', ''file'', ''match''}) dd)]"
      "vals = Ref (length h)"
      using nr Item dd by (auto simp: next_rule_def Let_def split: if_splits)
    have "list_all (\<lambda>kv. within d P (snd kv))
            (filter (\<lambda>kv. fst kv \<notin> {''pattern'', ''file'', ''match''}) dd)"
      using wdd by (auto simp: list_all_iff)
    then show ?thesis unfolding eq by (simp add: in_store_def h_dict_def)
  qed
qed

lemma apply_rules_returns:
  assumes "prefix P h" and "list_all (src_within d P) srcs" and "d < n"
  shows "apply_rules_h n h rel nm merged srcs \<noteq> None"
  using assms(1,2)
proof (induction srcs arbitrary: h merged)
  case Nil
  then show ?case by simp
next
  case (Cons src rest)
  obtain h1 rule where nr: "next_rule h src = (h1, rule)" by (cases "next_rule h src")
  have p1: "prefix h h1" using nr by (rule next_rule_frame)
  have P1: "prefix P h1" using Cons.prems(1) p1 by (rule prefix_order.trans)
  have rest: "list_all (src_within d P) rest" and src: "src_within d P src"
    using Cons.prems(2) by simp_all
  have skip: "apply_rules_h n h1 rel nm m rest \<noteq> None" for m
    using Cons.IH[OF P1 rest] .
  show ?case
  proof (cases rule)
    case None
    then show ?thesis using nr skip by simp
  next
    case (Some pv)
    obtain pattern vals where pv: "pv = (pattern, vals)" by (cases pv)
    from next_rule_within[OF Cons.prems(1) src nr[unfolded Some pv]]
    have sv: "in_store h1 vals"
      and wv: "case h_dict h1 vals of None \<Rightarrow> True
               | Some es \<Rightarrow> list_all (\<lambda>kv. within d P (snd kv)) es" by simp_all
    from merge_returns(1)[OF P1 assms(3) sv wv]
    obtain res1 h2 where dm: "deep_merge_h n h1 (Ref merged) vals = Some (res1, h2)" by fastforce
    from merge_frame(1)[OF dm] have "prefix h1 h2" by simp
    then have P2: "prefix P h2" using P1 by (meson prefix_order.trans)
    have go: "apply_rules_h n h2 rel nm m rest \<noteq> None" for m
      using Cons.IH[OF P2 rest] .
    show ?thesis using nr Some pv dm skip go
      by (auto split: hval.splits sum.splits)
  qed
qed

lemma rule_sources_prefix:
  assumes "prefix P h" and "in_store P ov" and "in_store P md"
  shows "rule_sources h ov md = rule_sources P ov md"
proof -
  have t: "h_truthy h ov = h_truthy P ov" "h_truthy h md = h_truthy P md"
    using assms by (simp_all add: in_store_truthy)
  have o: "h_or h ov md = h_or P ov md" using t by (simp add: h_or_def)
  have s: "in_store P (h_or P ov md)" using assms(2,3) by (simp add: h_or_def)
  have t2: "h_truthy h (h_or P ov md) = h_truthy P (h_or P ov md)"
    using assms(1) s by (rule in_store_truthy)
  have "h ! a = P ! a" if "h_or P ov md = Ref a" for a
  proof -
    have "a < length P" using s that by (simp add: in_store_def)
    then show ?thesis using assms(1) by (auto simp: prefix_def nth_append)
  qed
  then show ?thesis unfolding rule_sources_def o Let_def t2
    by (auto split: hval.splits)
qed

lemma apply_metadata_overrides_h_returns:
  assumes "in_store h ov" and "in_store h md"
    and "list_all (src_within d h) (rule_sources h ov md)" and "d < n"
  shows "apply_metadata_overrides_h n h fp meta ov md \<noteq> None"
proof -
  let ?h1 = "if h_truthy h meta then h else h @ [ODict []]"
  let ?src = "if h_truthy h meta then meta else Ref (length h)"
  show ?thesis
  proof (cases "h_dict ?h1 ?src")
    case None
    then show ?thesis by (simp add: apply_metadata_overrides_h_def Let_def)
  next
    case (Some dd)
    let ?h2 = "?h1 @ [ODict dd]"
    have p: "prefix h ?h2" by (simp add: prefix_snoc)
    have "rule_sources ?h2 ov md = rule_sources h ov md"
      using p assms(1,2) by (rule rule_sources_prefix)
    then have "list_all (src_within d h) (rule_sources ?h2 ov md)" using assms(3) by simp
    from apply_rules_returns[OF p this assms(4)]
    show ?thesis using Some by (simp add: apply_metadata_overrides_h_def Let_def)
  qed
qed

subsection \<open>The frame of the override merger\<close>

text \<open>
  C10.  On the store, \<open>apply_metadata_overrides\<close> changes no object that exists when it is
  called: the store at the end, whether the call returns or raises, begins with the store
  of the start, so the metadata mapping passed in and every mapping below it are what they
  were.  The mapping returned is a new object.  The call ends (with fuel above the depth
  to which mappings nest in the override values, which lie in the store).
\<close>

theorem apply_metadata_overrides_leaves_input:
  "(apply_metadata_overrides_h n h fp meta ov md = Some (res, h')
      \<longrightarrow> take (length h) h' = h
          \<and> (\<forall>r. res = Inr r \<longrightarrow> length h \<le> r \<and> h_dict h' (Ref r) \<noteq> None))
   \<and> (in_store h ov \<and> in_store h md \<and> list_all (src_within d h) (rule_sources h ov md) \<and> d < n
      \<longrightarrow> apply_metadata_overrides_h n h fp meta ov md \<noteq> None)"
proof (intro conjI impI)
  assume "apply_metadata_overrides_h n h fp meta ov md = Some (res, h')"
  from apply_metadata_overrides_h_frame[OF this]
  have p: "prefix h h'"
    and r: "\<forall>r. res = Inr r \<longrightarrow> length h \<le> r \<and> h_dict h' (Ref r) \<noteq> None" by simp_all
  from p show "take (length h) h' = h" by (auto simp: prefix_def)
  from r show "\<forall>r. res = Inr r \<longrightarrow> length h \<le> r \<and> h_dict h' (Ref r) \<noteq> None" .
next
  assume "in_store h ov \<and> in_store h md \<and> list_all (src_within d h) (rule_sources h ov md) \<and> d < n"
  then show "apply_metadata_overrides_h n h fp meta ov md \<noteq> None"
    using apply_metadata_overrides_h_returns by blast
qed

theorem apply_metadata_overrides_leaves_input_witness:
  "apply_metadata_overrides_h 3 store0 intro1 (Ref 0) (Ref 2) HNone = Some (Inr 7, store1)
   \<and> in_store store0 (Ref 2) \<and> in_store store0 HNone
   \<and> list_all (src_within 2 store0) (rule_sources store0 (Ref 2) HNone)
   \<and> take (length store0) store1 = store0
   \<and> length store0 \<le> 7
   \<and> h_dict store1 (Ref 7) = Some [(''title'', HStr ''New''), (''opts'', Ref 9)]
   \<and> h_dict store1 (Ref 0) = Some [(''title'', HStr ''Old''), (''opts'', Ref 1)]
   \<and> h_dict store1 (Ref 1) = Some [(''a'', HInt 1)]"
proof -
  have run: "apply_metadata_overrides_h 3 store0 intro1 (Ref 0) (Ref 2) HNone = Some (Inr 7, store1)"
    by code_simp
  have h1: "in_store store0 (Ref 2)" by code_simp
  have h2: "in_store store0 HNone" by code_simp
  have h3: "list_all (src_within 2 store0) (rule_sources store0 (Ref 2) HNone)" by code_simp
  have r7: "h_dict store1 (Ref 7) = Some [(''title'', HStr ''New''), (''opts'', Ref 9)]" by code_simp
  have r0: "h_dict store1 (Ref 0) = Some [(''title'', HStr ''Old''), (''opts'', Ref 1)]" by code_simp
  have r1: "h_dict store1 (Ref 1) = Some [(''a'', HInt 1)]" by code_simp
  show ?thesis
    using run h1 h2 h3 r7 r0 r1
      apply_metadata_overrides_leaves_input[of 3 store0 intro1 "Ref 0" "Ref 2" HNone "Inr 7" store1 2]
    by simp
qed


end
